theory Spec2Isabelle
  imports Complex_Main "HOL-Library.Word"
begin

unbundle bit_operations_syntax

section \<open>Bytes and C strings\<close>

text \<open>
  The client (\<^verbatim>\<open>PSI/Client/Client/Client.cpp\<close>) is a Winsock program: \<^verbatim>\<open>char\<close> is a
  signed 8-bit integer, \<^verbatim>\<open>int\<close>, \<^verbatim>\<open>long\<close> and \<^verbatim>\<open>unsigned int\<close> are 32 bits wide.
  A byte is an \<open>8 word\<close>; whether it is read as signed or unsigned is written at each use
  (\<open>scast\<close> or \<open>ucast\<close>). Arrays of \<^verbatim>\<open>char\<close> are byte lists.
\<close>

type_synonym byte = "8 word"

definition bytes_of :: "string \<Rightarrow> byte list" where
  "bytes_of s = map of_char s"

text \<open>The C string held in an array: the bytes before the first NUL.\<close>

definition cstr :: "byte list \<Rightarrow> byte list" where
  "cstr a = takeWhile (\<lambda>b. b \<noteq> 0) a"

definition ZeroMemory :: "nat \<Rightarrow> byte list" where
  "ZeroMemory n = replicate n 0"

text \<open>
  \<^verbatim>\<open>strncmp(a, b, n) == 0\<close>: the first \<open>n\<close> characters agree, the comparison ending early
  at a NUL that both strings share.
\<close>

fun strncmp_eq :: "byte list \<Rightarrow> byte list \<Rightarrow> nat \<Rightarrow> bool" where
  "strncmp_eq a b 0 = True"
| "strncmp_eq (x # xs) (y # ys) (Suc n) = (x = y \<and> (x = 0 \<or> strncmp_eq xs ys n))"
| "strncmp_eq a b (Suc n) = False"

text \<open>
  A loop of indexed assignments \<^verbatim>\<open>buf[pos + i] = src[i]\<close> for \<open>i\<close> from 0 up to the
  length of \<open>src\<close>.
\<close>

definition store :: "byte list \<Rightarrow> nat \<Rightarrow> byte list \<Rightarrow> byte list" where
  "store buf pos src = fold (\<lambda>i b. b[pos + i := src ! i]) [0..<length src] buf"

text \<open>
  \<^verbatim>\<open>sprintf(buffer, s)\<close> with \<open>s\<close> as the format and no further argument. An ordinary
  character is copied, \<^verbatim>\<open>%%\<close> writes one \<^verbatim>\<open>%\<close>; any other conversion reads an argument
  that was never passed, which has no defined result (\<open>None\<close>).
\<close>

fun format :: "byte list \<Rightarrow> byte list option" where
  "format [] = Some []"
| "format (c # cs) =
     (if c = 0x25 then
        (case cs of
           [] \<Rightarrow> None
         | d # ds \<Rightarrow> if d = 0x25 then map_option ((#) 0x25) (format ds) else None)
      else map_option ((#) c) (format cs))"

text \<open>
  The output and its terminating NUL are written from the start of the destination array;
  writing past the end of the array has no defined result.
\<close>

definition sprintf :: "byte list \<Rightarrow> byte list \<Rightarrow> byte list option" where
  "sprintf buf fmt =
     (case format (cstr fmt) of
        None \<Rightarrow> None
      | Some out \<Rightarrow>
          if length out < length buf then Some (store buf 0 (out @ [0])) else None)"

text \<open>Decimal digits, and \<^verbatim>\<open>%ld\<close> applied to a 32-bit \<^verbatim>\<open>long\<close>.\<close>

fun digits :: "nat \<Rightarrow> byte list" where
  "digits n = (if n < 10 then [0x30 + of_nat n]
               else digits (n div 10) @ [0x30 + of_nat (n mod 10)])"

declare digits.simps [simp del]

definition printf_ld :: "32 word \<Rightarrow> byte list" where
  "printf_ld v = (if sint v < 0 then 0x2D # digits (nat (- sint v)) else digits (nat (sint v)))"

section \<open>Frame checksum\<close>

definition POLY :: "32 word" where
  "POLY = 0x82f63b78"

text \<open>One turn of the inner loop: \<^verbatim>\<open>crc = crc & 1 ? (crc >> 1) ^ POLY : crc >> 1\<close>.\<close>

definition crc_bit :: "32 word \<Rightarrow> 32 word" where
  "crc_bit crc = (if crc AND 1 \<noteq> 0 then drop_bit 1 crc XOR POLY else drop_bit 1 crc)"

text \<open>
  One turn of the outer loop. \<^verbatim>\<open>buf\<close> is a \<^verbatim>\<open>const char *\<close>, so \<^verbatim>\<open>crc ^= *buf++\<close>
  promotes a signed \<^verbatim>\<open>char\<close> to \<^verbatim>\<open>int\<close> and then to \<^verbatim>\<open>uint32_t\<close>: the byte is
  sign-extended (\<open>scast\<close>) before the exclusive or.
\<close>

definition crc_byte :: "32 word \<Rightarrow> byte \<Rightarrow> 32 word" where
  "crc_byte crc b = (crc_bit ^^ 8) (crc XOR scast b)"

definition crc32c :: "32 word \<Rightarrow> byte list \<Rightarrow> nat \<Rightarrow> 32 word" where
  "crc32c crc buf len = NOT (foldl crc_byte (NOT crc) (take len buf))"

text \<open>
  The checksum as the specification words it: CRC-32C, reversed Castagnoli polynomial,
  bit-reflected, initial and final one's complement, each input byte an unsigned octet.
  This is the second definition the frame claim is compared with.
\<close>

definition crc32c_spec :: "byte list \<Rightarrow> 32 word" where
  "crc32c_spec body = NOT (foldl (\<lambda>crc b. (crc_bit ^^ 8) (crc XOR ucast b)) (NOT 0) body)"

definition intToBytes :: "32 word \<Rightarrow> byte list" where
  "intToBytes paramInt =
     [ucast (drop_bit 24 paramInt), ucast (drop_bit 16 paramInt),
      ucast (drop_bit 8 paramInt), ucast paramInt]"

text \<open>
  The checksum step shared by both frame kinds: CRC over the first 4092 bytes of the
  4096-byte buffer, written big-endian into bytes 4092 to 4095.
\<close>

definition seal :: "byte list \<Rightarrow> byte list" where
  "seal buffer = store buffer 4092 (intToBytes (crc32c 0 buffer 4092))"

section \<open>Rate hint\<close>

text \<open>
  \<^verbatim>\<open>sleep_time = round(((float)4096 / bps) * 1000)\<close> is single-precision arithmetic:
  \<open>bps\<close> is converted to \<^verbatim>\<open>float\<close>, the quotient and the product are each rounded to
  binary32 (24-bit significand, round to nearest, ties to even), \<^verbatim>\<open>round\<close> rounds
  halves away from zero and the result is converted to \<^verbatim>\<open>unsigned int\<close>.
  \<open>float32\<close> rounds a non-negative rational to 24 significant bits; the fuel covers the
  whole exponent range of binary32. Division by \<open>bps = 0\<close> gives infinity, whose
  conversion to an integer has no defined result.
\<close>

definition round_even :: "rat \<Rightarrow> int" where
  "round_even x =
     (let f = \<lfloor>x\<rfloor>; r = x - of_int f
      in if r < 1 / 2 then f else if 1 / 2 < r then f + 1 else if even f then f else f + 1)"

fun fl_norm :: "nat \<Rightarrow> rat \<Rightarrow> rat" where
  "fl_norm 0 x = x"
| "fl_norm (Suc n) x =
     (if x < 2 ^ 23 then fl_norm n (2 * x) / 2
      else if 2 ^ 24 \<le> x then fl_norm n (x / 2) * 2
      else of_int (round_even x))"

definition float32 :: "rat \<Rightarrow> rat" where
  "float32 x = fl_norm 300 x"

definition delay_of :: "32 word \<Rightarrow> 32 word option" where
  "delay_of bps =
     (if bps = 0 then None
      else
        let q = float32 (4096 / float32 (of_nat (unat bps)));
            p = float32 (q * 1000);
            r = \<lfloor>p + 1 / 2\<rfloor>
        in if r < 2 ^ 32 then Some (word_of_int r) else None)"

text \<open>
  \<^verbatim>\<open>for (n = 0; n < 4; n++) bps = (bps << 8) + (unsigned char)buff[n + 4]\<close>.
\<close>

definition bps_of :: "byte list \<Rightarrow> 32 word" where
  "bps_of buff = foldl (\<lambda>bps n. push_bit 8 bps + ucast (buff ! (n + 4))) 0 [0..<4]"

section \<open>Network and program state\<close>

text \<open>
  What happens to one \<^verbatim>\<open>sendto\<close>/\<^verbatim>\<open>recvfrom\<close> pair: \<^verbatim>\<open>sendto\<close> fails; or it succeeds
  and \<^verbatim>\<open>recvfrom\<close> fails, leaving the reply buffer as it was; or a datagram arrives. The
  network is a function from the number of the attempt (counted over the whole run) to
  its event.
\<close>

datatype net_event = SendError | RecvError | Datagram "byte list"

text \<open>
  \<open>sleep_time\<close> is the global of that name; \<open>sent\<close> lists the buffers handed to
  \<^verbatim>\<open>sendto\<close>, oldest first; \<open>slept\<close> lists the arguments of \<^verbatim>\<open>sleep_for\<close>, in
  milliseconds.
\<close>

record world =
  sleep_time :: "32 word"
  sent :: "byte list list"
  slept :: "32 word list"

text \<open>The state at the start of \<^verbatim>\<open>_tmain\<close>: \<open>sleep_time\<close> is 0 and nothing was sent.\<close>

definition world0 :: world where
  "world0 = \<lparr>sleep_time = 0, sent = [], slept = []\<rparr>"

text \<open>
  \<^verbatim>\<open>recvfrom\<close> into a reply buffer: a datagram that fits overwrites the start of the
  buffer and leaves the rest; a longer one fills the buffer with its first bytes and is
  reported as an error (\<^verbatim>\<open>WSAEMSGSIZE\<close>).
\<close>

definition recvfrom :: "net_event \<Rightarrow> byte list \<Rightarrow> bool \<times> byte list" where
  "recvfrom ev buf =
     (case ev of
        Datagram d \<Rightarrow>
          if length d \<le> length buf then (True, d @ drop (length d) buf)
          else (False, take (length buf) d)
      | _ \<Rightarrow> (False, buf))"

text \<open>
  The nested \<^verbatim>\<open>if (sendto(...) != SOCKET_ERROR) if (recvfrom(...) != SOCKET_ERROR)\<close> of
  both retry loops, up to and including \<^verbatim>\<open>buff[15] = '\0'\<close>: whether a reply was
  received, and the reply buffer afterwards.
\<close>

definition attempt :: "net_event \<Rightarrow> byte list \<Rightarrow> bool \<times> byte list" where
  "attempt ev buff =
     (if ev = SendError then (False, buff)
      else case recvfrom ev buff of
             (True, b) \<Rightarrow> (True, b[15 := 0])
           | (False, b) \<Rightarrow> (False, b))"

section \<open>sendString\<close>

text \<open>
  The \<^verbatim>\<open>do ... while\<close> loop of \<^verbatim>\<open>sendString\<close>. \<open>tries\<close> is the 32-bit \<^verbatim>\<open>int\<close>
  counter; \<open>back_buff\<close> is the 16-byte reply buffer, which keeps its contents from one turn
  to the next. The result is the final value of \<open>tries\<close>; \<open>None\<close> when the rate hint has
  no defined delay.
\<close>

function send_loop ::
  "(nat \<Rightarrow> net_event) \<Rightarrow> byte list \<Rightarrow> 32 word \<Rightarrow> byte list \<Rightarrow> world \<Rightarrow> (32 word \<times> world) option"
where
  "send_loop net buffer tries back_buff w =
     (case attempt (net (length (sent w))) back_buff of
        (received, bb) \<Rightarrow>
          (case (if received \<and> strncmp_eq bb (bytes_of ''OKSS'') 4
                 then delay_of (bps_of bb) else Some (sleep_time w)) of
             None \<Rightarrow> None
           | Some t \<Rightarrow>
               if \<not> strncmp_eq bb (bytes_of ''OK'') 2 \<and> tries + 1 \<noteq> 8
               then send_loop net buffer (tries + 1) bb
                      (w\<lparr>sleep_time := t, sent := sent w @ [buffer]\<rparr>)
               else Some (tries + 1, w\<lparr>sleep_time := t, sent := sent w @ [buffer]\<rparr>)))"
  by pat_completeness auto
termination
proof (relation "measure (\<lambda>(net, buffer, tries, back_buff, w). unat (7 - tries))")
  show "wf (measure (\<lambda>(net, buffer, tries, back_buff, w). unat (7 - tries)))"
    by simp
next
  fix net :: "nat \<Rightarrow> net_event" and buffer :: "byte list" and tries :: "32 word"
    and back_buff :: "byte list" and w :: world and x :: "bool \<times> byte list"
    and received :: bool and bb :: "byte list" and t :: "32 word"
  assume "\<not> strncmp_eq bb (bytes_of ''OK'') 2 \<and> tries + 1 \<noteq> 8"
  then have ne: "7 - tries \<noteq> 0"
    by auto
  have eq: "7 - (tries + 1) = (7 - tries) - 1"
    by simp
  have "unat ((7 - tries) - 1) = unat (7 - tries) - 1"
    using ne by (rule unat_minus_one)
  moreover have "0 < unat (7 - tries)"
    using ne by (rule unat_gt_0 [THEN iffD2])
  ultimately have "unat (7 - (tries + 1)) < unat (7 - tries)"
    unfolding eq by linarith
  then show
    "((net, buffer, tries + 1, bb, w\<lparr>sleep_time := t, sent := sent w @ [buffer]\<rparr>),
      (net, buffer, tries, back_buff, w))
     \<in> measure (\<lambda>(net, buffer, tries, back_buff, w). unat (7 - tries))"
    by simp
qed

declare send_loop.simps [simp del]

text \<open>
  The buffer \<^verbatim>\<open>sendString\<close> builds before its loop: 4096 zero bytes, the command
  written by \<^verbatim>\<open>sprintf(buffer, s)\<close>, the checksum in the last four bytes.
\<close>

definition control_frame :: "byte list \<Rightarrow> byte list option" where
  "control_frame s = map_option seal (sprintf (ZeroMemory 4096) s)"

text \<open>
  \<open>back_buff0\<close> is what the uninitialised \<^verbatim>\<open>back_buff\<close> holds on entry. The result is
  \<^verbatim>\<open>tries < 8\<close>, a signed comparison.
\<close>

definition sendString ::
  "(nat \<Rightarrow> net_event) \<Rightarrow> byte list \<Rightarrow> byte list \<Rightarrow> world \<Rightarrow> (bool \<times> world) option"
where
  "sendString net back_buff0 s w =
     (case control_frame s of
        None \<Rightarrow> None
      | Some buffer \<Rightarrow>
          (case send_loop net buffer 0 back_buff0 w of
             None \<Rightarrow> None
           | Some (tries, w') \<Rightarrow> Some (tries <s 8, w')))"

section \<open>The transfer\<close>

text \<open>
  The file is opened twice. \<^verbatim>\<open>std::ifstream t(file)\<close> reads it in text mode for the
  digest: on this platform a carriage return before a line feed is dropped and the byte
  \<open>0x1A\<close> ends the input. \<^verbatim>\<open>ReadAllBytes\<close> opens it with \<^verbatim>\<open>ios::binary\<close> and
  returns every byte.
\<close>

fun text_mode :: "byte list \<Rightarrow> byte list" where
  "text_mode [] = []"
| "text_mode (c # cs) =
     (if c = 0x1A then []
      else if c = 0x0D \<and> cs \<noteq> [] \<and> hd cs = 0x0A then text_mode cs
      else c # text_mode cs)"

definition ReadAllBytes :: "byte list \<Rightarrow> byte list" where
  "ReadAllBytes file = file"

text \<open>
  The body of the streaming loop up to the checksum, on the 4096-byte \<open>buffer2\<close>: the tag,
  the offset, then \<^verbatim>\<open>buffer2[i + 8] = file_bytes[i + offset]\<close> for \<open>i\<close> below the smaller
  of 4084 and the bytes left. \<open>i + offset\<close> is 32-bit unsigned arithmetic.
\<close>

definition data_frame :: "byte list \<Rightarrow> byte list \<Rightarrow> 32 word \<Rightarrow> byte list" where
  "data_frame buffer2 file_bytes offset =
     (let b1 = store buffer2 0 (bytes_of ''DATA'');
          b2 = store b1 4 (intToBytes offset);
          n = (if 4096 - 12 < length file_bytes - unat offset then 4096 - 12
               else length file_bytes - unat offset);
          b3 = store b2 8 (map (\<lambda>i. file_bytes ! unat (word_of_nat i + offset)) [0..<n])
      in seal b3)"

text \<open>
  The \<^verbatim>\<open>do ... while\<close> loop of the streaming phase. The rate hint is read from
  \<open>backbuffer\<close> at the top of each turn, before the frame is sent. The result is the
  final \<open>tries\<close> and \<open>backbuffer\<close>.
\<close>

function data_loop ::
  "(nat \<Rightarrow> net_event) \<Rightarrow> byte list \<Rightarrow> 32 word \<Rightarrow> byte list \<Rightarrow> world
     \<Rightarrow> (32 word \<times> byte list \<times> world) option"
where
  "data_loop net buffer2 tries backbuffer w =
     (case (if strncmp_eq backbuffer (bytes_of ''OKSS'') 4
            then delay_of (bps_of backbuffer) else Some (sleep_time w)) of
        None \<Rightarrow> None
      | Some t \<Rightarrow>
          (case attempt (net (length (sent w))) backbuffer of
             (received, bb) \<Rightarrow>
               if \<not> strncmp_eq bb (bytes_of ''OK'') 2 \<and> tries + 1 \<noteq> 8
               then data_loop net buffer2 (tries + 1) bb
                      (w\<lparr>sleep_time := t, sent := sent w @ [buffer2]\<rparr>)
               else Some (tries + 1, bb, w\<lparr>sleep_time := t, sent := sent w @ [buffer2]\<rparr>)))"
  by pat_completeness auto
termination
proof (relation "measure (\<lambda>(net, buffer2, tries, backbuffer, w). unat (7 - tries))")
  show "wf (measure (\<lambda>(net, buffer2, tries, backbuffer, w). unat (7 - tries)))"
    by simp
next
  fix net :: "nat \<Rightarrow> net_event" and buffer2 :: "byte list" and tries :: "32 word"
    and backbuffer :: "byte list" and w :: world and x :: "bool \<times> byte list"
    and received :: bool and bb :: "byte list" and t :: "32 word"
  assume "\<not> strncmp_eq bb (bytes_of ''OK'') 2 \<and> tries + 1 \<noteq> 8"
  then have ne: "7 - tries \<noteq> 0"
    by auto
  have eq: "7 - (tries + 1) = (7 - tries) - 1"
    by simp
  have "unat ((7 - tries) - 1) = unat (7 - tries) - 1"
    using ne by (rule unat_minus_one)
  moreover have "0 < unat (7 - tries)"
    using ne by (rule unat_gt_0 [THEN iffD2])
  ultimately have "unat (7 - (tries + 1)) < unat (7 - tries)"
    unfolding eq by linarith
  then show
    "((net, buffer2, tries + 1, bb, w\<lparr>sleep_time := t, sent := sent w @ [buffer2]\<rparr>),
      (net, buffer2, tries, backbuffer, w))
     \<in> measure (\<lambda>(net, buffer2, tries, backbuffer, w). unat (7 - tries))"
    by simp
qed

declare data_loop.simps [simp del]

text \<open>How a run ends: the message printed before \<^verbatim>\<open>return 0\<close>, \<^verbatim>\<open>exit(1)\<close>, or the end.\<close>

datatype status =
  Done | ErrorName | ErrorSize | ErrorHash | ErrorStart | ErrorFile | ErrorStop | Undefined

text \<open>
  The \<^verbatim>\<open>while (offset < file_bytes.size())\<close> loop. \<open>offset\<close> is a \<^verbatim>\<open>uint32_t\<close> and wraps
  around, so for a file of \<open>2\<^sup>3\<^sup>2 - 4084\<close> bytes or more the loop need not end: the result
  is \<open>None\<close> when it does not. \<open>Done\<close> here means that the loop was left normally.
\<close>

partial_function (option) stream ::
  "(nat \<Rightarrow> net_event) \<Rightarrow> byte list \<Rightarrow> 32 word \<Rightarrow> byte list \<Rightarrow> byte list \<Rightarrow> world
     \<Rightarrow> (status \<times> world) option"
where
  "stream net file_bytes offset buffer2 backbuffer w =
     (if unat offset < length file_bytes then
        (case data_loop net (data_frame buffer2 file_bytes offset) 0 backbuffer w of
           None \<Rightarrow> Some (Undefined, w)
         | Some (tries, bb, w') \<Rightarrow>
             if tries = 8 then Some (ErrorFile, w')
             else stream net file_bytes (offset + (4096 - 12)) (ZeroMemory 4096) bb
                    (w'\<lparr>slept := slept w' @ [sleep_time w']\<rparr>))
      else Some (Done, w))"

text \<open>
  What is not initialised when it is first read: \<open>back_buff\<close> of each call of
  \<^verbatim>\<open>sendString\<close> (indexed by the number of frames sent before the call), \<open>buffer2\<close> and
  \<open>backbuffer\<close> of \<^verbatim>\<open>_tmain\<close>.
\<close>

record stack =
  back_buff0 :: "nat \<Rightarrow> byte list"
  buffer2_0 :: "byte list"
  backbuffer0 :: "byte list"

text \<open>
  One control step: \<^verbatim>\<open>if (!sendString(str)) { cout << ...; return 0; }\<close>, where \<open>str\<close>
  is the command if it fits the 120-byte array \<^verbatim>\<open>str\<close> with its NUL, and \<open>k\<close> is the
  rest of the program.
\<close>

definition control_step ::
  "(nat \<Rightarrow> net_event) \<Rightarrow> stack \<Rightarrow> byte list \<Rightarrow> status \<Rightarrow> world
     \<Rightarrow> (world \<Rightarrow> (status \<times> world) option) \<Rightarrow> (status \<times> world) option"
where
  "control_step net stk str err w k =
     (if 120 \<le> length str then Some (Undefined, w)
      else case sendString net (back_buff0 stk (length (sent w))) (cstr str) w of
             None \<Rightarrow> Some (Undefined, w)
           | Some (ok, w') \<Rightarrow> if ok then k w' else Some (err, w'))"

text \<open>
  \<^verbatim>\<open>_tmain\<close>. \<open>md5\<close> is the function of that name from \<^verbatim>\<open>md5.h\<close>, which is not part
  of the source; \<open>file\<close> is the content of the input file and \<open>fname\<close> the destination
  path. The digest is taken first, over the text-mode read.
\<close>

definition tmain ::
  "(byte list \<Rightarrow> byte list) \<Rightarrow> (nat \<Rightarrow> net_event) \<Rightarrow> stack \<Rightarrow> byte list \<Rightarrow> byte list
     \<Rightarrow> (status \<times> world) option"
where
  "tmain md5 net stk file fname =
     (let hashed = md5 (text_mode file);
          file_bytes = ReadAllBytes file
      in
        control_step net stk (bytes_of ''NAME='' @ cstr fname) ErrorName world0 (\<lambda>w1.
        control_step net stk
          (bytes_of ''SIZE='' @ printf_ld (word_of_nat (length file_bytes))) ErrorSize w1 (\<lambda>w2.
        control_step net stk (bytes_of ''HASH='' @ hashed) ErrorHash w2 (\<lambda>w3.
        control_step net stk (bytes_of ''START'') ErrorStart w3 (\<lambda>w4.
          (case stream net file_bytes 0 (buffer2_0 stk) (backbuffer0 stk) w4 of
             None \<Rightarrow> None
           | Some (st, w5) \<Rightarrow>
               if st = Done
               then control_step net stk (bytes_of ''STOP'') ErrorStop w5 (\<lambda>w6. Some (Done, w6))
               else Some (st, w5)))))))"

section \<open>Auxiliary notions\<close>

text \<open>A 16-byte acknowledgment datagram that starts with \<open>p\<close> and is zero otherwise.\<close>

definition reply :: "byte list \<Rightarrow> byte list" where
  "reply p = p @ replicate (16 - length p) 0"

text \<open>
  What the reply buffer of a retry loop holds after \<open>k\<close> attempts, the first of them
  being attempt number \<open>n0\<close> of the run, when the loop was entered with \<open>bb\<close>.
\<close>

primrec back_buff_after :: "(nat \<Rightarrow> net_event) \<Rightarrow> nat \<Rightarrow> byte list \<Rightarrow> nat \<Rightarrow> byte list" where
  "back_buff_after net n0 bb 0 = bb"
| "back_buff_after net n0 bb (Suc k) =
     snd (attempt (net (n0 + k)) (back_buff_after net n0 bb k))"

text \<open>
  The rate hint that a reply buffer carries, if it carries one, has a defined delay.
\<close>

definition hint_defined :: "byte list \<Rightarrow> bool" where
  "hint_defined buff =
     (strncmp_eq buff (bytes_of ''OKSS'') 4 \<longrightarrow> delay_of (bps_of buff) \<noteq> None)"

text \<open>The inverse of one turn of the inner checksum loop.\<close>

definition crc_unbit :: "32 word \<Rightarrow> 32 word" where
  "crc_unbit c = (if bit c 31 then push_bit 1 (c XOR POLY) OR 1 else push_bit 1 c)"

section \<open>Auxiliary facts\<close>

lemma strncmp_eq_take:
  "0 \<notin> set lit \<Longrightarrow> strncmp_eq bb lit (length lit) = (take (length lit) bb = lit)"
proof (induction lit arbitrary: bb)
  case Nil
  then show ?case by simp
next
  case (Cons c cs)
  then show ?case by (cases bb) auto
qed

lemma strncmp_OK: "strncmp_eq bb (bytes_of ''OK'') 2 = (take 2 bb = bytes_of ''OK'')"
proof -
  have len: "length (bytes_of ''OK'') = 2" and nz: "0 \<notin> set (bytes_of ''OK'')"
    by (simp_all add: bytes_of_def)
  show ?thesis
    using strncmp_eq_take [OF nz, of bb] unfolding len .
qed

lemma strncmp_OKSS: "strncmp_eq bb (bytes_of ''OKSS'') 4 = (take 4 bb = bytes_of ''OKSS'')"
proof -
  have len: "length (bytes_of ''OKSS'') = 4" and nz: "0 \<notin> set (bytes_of ''OKSS'')"
    by (simp_all add: bytes_of_def)
  show ?thesis
    using strncmp_eq_take [OF nz, of bb] unfolding len .
qed

lemma OKSS_imp_OK:
  "strncmp_eq bb (bytes_of ''OKSS'') 4 \<Longrightarrow> strncmp_eq bb (bytes_of ''OK'') 2"
proof -
  assume "strncmp_eq bb (bytes_of ''OKSS'') 4"
  then have "take 4 bb = bytes_of ''OKSS''"
    by (simp only: strncmp_OKSS)
  then have "take 2 (take 4 bb) = take 2 (bytes_of ''OKSS'')"
    by simp
  then have "take 2 bb = bytes_of ''OK''"
    by (simp add: bytes_of_def)
  then show ?thesis
    by (simp only: strncmp_OK)
qed

lemma drop_update0: "k < length buf \<Longrightarrow> (drop k buf)[0 := v] = v # drop (Suc k) buf"
  by (metis Cons_nth_drop_Suc list_update_code(2))

lemma store_fold:
  "n \<le> length src \<Longrightarrow> pos + n \<le> length buf \<Longrightarrow>
   fold (\<lambda>i b. b[pos + i := src ! i]) [0..<n] buf = take pos buf @ take n src @ drop (pos + n) buf"
proof (induction n)
  case 0
  then show ?case by simp
next
  case (Suc n)
  then have IH: "fold (\<lambda>i b. b[pos + i := src ! i]) [0..<n] buf
                 = take pos buf @ take n src @ drop (pos + n) buf"
    by simp
  have "fold (\<lambda>i b. b[pos + i := src ! i]) [0..<Suc n] buf
        = (take pos buf @ take n src @ drop (pos + n) buf)[pos + n := src ! n]"
    by (simp add: IH)
  also have "\<dots> = take pos buf @ (take n src @ drop (pos + n) buf)[n := src ! n]"
    using Suc.prems by (simp add: list_update_append)
  also have "\<dots> = take pos buf @ take n src @ (drop (pos + n) buf)[0 := src ! n]"
    using Suc.prems by (simp add: list_update_append)
  also have "\<dots> = take pos buf @ take n src @ src ! n # drop (Suc (pos + n)) buf"
    using Suc.prems by (simp add: drop_update0)
  also have "\<dots> = take pos buf @ take (Suc n) src @ drop (pos + Suc n) buf"
    using Suc.prems by (simp add: take_Suc_conv_app_nth)
  finally show ?case .
qed

lemma store_eq:
  "pos + length src \<le> length buf \<Longrightarrow>
   store buf pos src = take pos buf @ src @ drop (pos + length src) buf"
  using store_fold [of "length src" src pos buf] by (simp add: store_def)

lemma length_intToBytes: "length (intToBytes c) = 4"
  by (simp add: intToBytes_def)

lemma seal_eq:
  "length buffer = 4096 \<Longrightarrow> seal buffer = take 4092 buffer @ intToBytes (crc32c 0 buffer 4092)"
  by (simp add: seal_def store_eq length_intToBytes)

lemma format_plain: "0x25 \<notin> set s \<Longrightarrow> format s = Some s"
  by (induction s) auto

lemma cstr_plain: "0 \<notin> set s \<Longrightarrow> cstr s = s"
  by (simp add: cstr_def takeWhile_eq_all_conv) metis

lemma sprintf_plain:
  assumes "0x25 \<notin> set s" and "0 \<notin> set s" and "length s < 4096"
  shows "sprintf (ZeroMemory 4096) s = Some (s @ replicate (4096 - length s) 0)"
proof -
  have "store (replicate 4096 0) 0 (s @ [0]) = s @ [0] @ replicate (4096 - Suc (length s)) 0"
    using assms(3) by (simp add: store_eq)
  also have "\<dots> = s @ replicate (Suc (4096 - Suc (length s))) 0"
    by simp
  also have "Suc (4096 - Suc (length s)) = 4096 - length s"
    using assms(3) by simp
  finally show ?thesis
    using assms by (simp add: sprintf_def format_plain cstr_plain ZeroMemory_def)
qed

lemma control_frame_plain:
  assumes "0x25 \<notin> set s" and "0 \<notin> set s" and "length s < 4092"
  shows "control_frame s = Some (seal (s @ replicate (4096 - length s) 0))"
    and "take 4092 (seal (s @ replicate (4096 - length s) 0)) = s @ replicate (4092 - length s) 0"
    and "length (seal (s @ replicate (4096 - length s) 0)) = 4096"
proof -
  show "control_frame s = Some (seal (s @ replicate (4096 - length s) 0))"
    using assms by (simp add: control_frame_def sprintf_plain)
  have len: "length (s @ replicate (4096 - length s) 0) = 4096"
    using assms(3) by simp
  show "take 4092 (seal (s @ replicate (4096 - length s) 0)) = s @ replicate (4092 - length s) 0"
    using assms(3) by (simp add: seal_eq [OF len] min_def)
  show "length (seal (s @ replicate (4096 - length s) 0)) = 4096"
    using assms(3) by (simp add: seal_eq [OF len] length_intToBytes)
qed

lemma of_nat_ne_8: "j < 7 \<Longrightarrow> (of_nat j :: 32 word) + 1 \<noteq> 8"
proof
  assume j: "j < 7" and eq: "(of_nat j :: 32 word) + 1 = 8"
  have "unat ((of_nat j :: 32 word) + 1) = unat (word_of_nat (Suc j) :: 32 word)"
    by (simp add: add.commute)
  also have "\<dots> = Suc j mod 2 ^ 32"
    by (simp only: unat_of_nat) simp
  also have "\<dots> = Suc j"
    using j by simp
  finally have "unat ((of_nat j :: 32 word) + 1) = Suc j" .
  moreover have "unat (8 :: 32 word) = 8"
    by simp
  ultimately show False
    using j eq by simp
qed

lemma send_loop_unfold_nonack:
  assumes len: "length (sent w) = n0 + j"
    and no: "\<not> strncmp_eq (back_buff_after net n0 bb0 (Suc j)) (bytes_of ''OK'') 2"
  shows "send_loop net f t (back_buff_after net n0 bb0 j) w
         = (if t + 1 \<noteq> 8
            then send_loop net f (t + 1) (back_buff_after net n0 bb0 (Suc j))
                   (w\<lparr>sent := sent w @ [f]\<rparr>)
            else Some (t + 1, w\<lparr>sent := sent w @ [f]\<rparr>))"
proof -
  obtain r where att: "attempt (net (n0 + j)) (back_buff_after net n0 bb0 j)
                        = (r, back_buff_after net n0 bb0 (Suc j))"
    by (metis back_buff_after.simps(2) prod.collapse)
  have no4: "\<not> strncmp_eq (back_buff_after net n0 bb0 (Suc j)) (bytes_of ''OKSS'') 4"
    using no OKSS_imp_OK by blast
  show ?thesis
    using no no4 by (subst send_loop.simps) (simp add: len att del: back_buff_after.simps)
qed

lemma send_loop_nonack_aux:
  "j + d = 7 \<Longrightarrow>
   (\<forall>k. j < k \<and> k \<le> 8 \<longrightarrow>
      \<not> strncmp_eq (back_buff_after net n0 bb0 k) (bytes_of ''OK'') 2) \<Longrightarrow>
   length (sent w) = n0 + j \<Longrightarrow>
   send_loop net f (of_nat j) (back_buff_after net n0 bb0 j) w
     = Some (8, w\<lparr>sent := sent w @ replicate (8 - j) f\<rparr>)"
proof (induction d arbitrary: j w)
  case 0
  then have j: "j = 7" by simp
  have no: "\<not> strncmp_eq (back_buff_after net n0 bb0 (Suc j)) (bytes_of ''OK'') 2"
    using "0.prems"(2) j by (simp del: back_buff_after.simps)
  show ?case
    using send_loop_unfold_nonack [OF "0.prems"(3) no, of f "of_nat j"] j
    by (simp del: back_buff_after.simps)
next
  case (Suc d)
  then have j: "j < 7" by simp
  have no: "\<not> strncmp_eq (back_buff_after net n0 bb0 (Suc j)) (bytes_of ''OK'') 2"
    using Suc.prems(2) j by (simp del: back_buff_after.simps)
  let ?w = "w\<lparr>sent := sent w @ [f]\<rparr>"
  have IH: "send_loop net f (of_nat (Suc j)) (back_buff_after net n0 bb0 (Suc j)) ?w
            = Some (8, ?w\<lparr>sent := sent ?w @ replicate (8 - Suc j) f\<rparr>)"
    using Suc.prems by (intro Suc.IH) auto
  have rep: "f # replicate (8 - Suc j) f = replicate (8 - j) f"
  proof -
    have "8 - j = Suc (8 - Suc j)"
      using j by simp
    then show ?thesis
      by (simp only: replicate_Suc)
  qed
  have "send_loop net f (of_nat j) (back_buff_after net n0 bb0 j) w
        = send_loop net f (of_nat j + 1) (back_buff_after net n0 bb0 (Suc j)) ?w"
    using send_loop_unfold_nonack [OF Suc.prems(3) no, of f "of_nat j"] of_nat_ne_8 [OF j]
    by (simp del: back_buff_after.simps)
  also have "of_nat j + 1 = (of_nat (Suc j) :: 32 word)"
    by (simp add: add.commute)
  also have "send_loop net f (of_nat (Suc j)) (back_buff_after net n0 bb0 (Suc j)) ?w
             = Some (8, w\<lparr>sent := sent w @ replicate (8 - j) f\<rparr>)"
    using IH rep by (simp del: back_buff_after.simps)
  finally show ?case .
qed

lemma send_loop_sent:
  "send_loop net f t bb w = Some (t', w') \<Longrightarrow> \<exists>n. sent w' = sent w @ replicate (Suc n) f"
proof (induction net f t bb w rule: send_loop.induct)
  case (1 net buffer tries back_buff w)
  obtain received bb where att: "attempt (net (length (sent w))) back_buff = (received, bb)"
    by (cases "attempt (net (length (sent w))) back_buff")
  define d where "d = (if received \<and> strncmp_eq bb (bytes_of ''OKSS'') 4
                       then delay_of (bps_of bb) else Some (sleep_time w))"
  from "1.prems" obtain t where t: "d = Some t"
    by (subst (asm) send_loop.simps) (auto simp: att d_def split: option.splits)
  let ?w = "w\<lparr>sleep_time := t, sent := sent w @ [buffer]\<rparr>"
  show ?case
  proof (cases "\<not> strncmp_eq bb (bytes_of ''OK'') 2 \<and> tries + 1 \<noteq> 8")
    case True
    then have "send_loop net buffer (tries + 1) bb ?w = Some (t', w')"
      using "1.prems" t by (subst (asm) send_loop.simps) (simp add: att d_def)
    then obtain n where "sent w' = sent ?w @ replicate (Suc n) buffer"
      using "1.IH" [OF att [symmetric] t [unfolded d_def] True] by blast
    then have "sent w' = sent w @ replicate (Suc (Suc n)) buffer"
      by simp
    then show ?thesis by blast
  next
    case False
    then have "w' = ?w"
      using "1.prems" t by (subst (asm) send_loop.simps) (auto simp: att d_def)
    then have "sent w' = sent w @ replicate (Suc 0) buffer"
      by simp
    then show ?thesis by blast
  qed
qed

lemma format_length: "format s = Some out \<Longrightarrow> length out \<le> length s"
  by (induction s arbitrary: out rule: format.induct)
     (auto split: if_splits list.splits, fastforce+)

lemma format_percent:
  "0x25 \<in> set s \<Longrightarrow> format s = Some out \<Longrightarrow> length out < length s"
proof (induction s arbitrary: out rule: format.induct)
  case 1
  then show ?case by simp
next
  case (2 c cs)
  show ?case
  proof (cases "c = 0x25")
    case True
    with "2.prems" obtain ds out' where cs: "cs = 0x25 # ds" and o: "format ds = Some out'"
      and out: "out = 0x25 # out'"
      by (auto split: list.splits if_splits)
    have "length out' \<le> length ds"
      using o by (rule format_length)
    then show ?thesis
      using cs out by simp
  next
    case False
    with "2.prems" obtain out' where o: "format cs = Some out'" and out: "out = c # out'"
      and mem: "0x25 \<in> set cs"
      by auto
    have "length out' < length cs"
      using "2.IH"(2) [OF False mem o] .
    then show ?thesis
      using out by simp
  qed
qed

lemma sprintf_format:
  assumes "format (cstr s) = Some out" and "length out < 4096"
  shows "sprintf (ZeroMemory 4096) s = Some (out @ replicate (4096 - length out) 0)"
proof -
  have "store (replicate 4096 0) 0 (out @ [0]) = out @ [0] @ replicate (4096 - Suc (length out)) 0"
    using assms(2) by (simp add: store_eq)
  also have "\<dots> = out @ replicate (Suc (4096 - Suc (length out))) 0"
    by simp
  also have "Suc (4096 - Suc (length out)) = 4096 - length out"
    using assms(2) by simp
  finally show ?thesis
    using assms by (simp add: sprintf_def ZeroMemory_def)
qed

lemma control_frame_format:
  assumes "format (cstr s) = Some out" and "length out < 4092"
  shows "control_frame s = Some (seal (out @ replicate (4096 - length out) 0))"
    and "take 4092 (seal (out @ replicate (4096 - length out) 0))
         = out @ replicate (4092 - length out) 0"
    and "length (seal (out @ replicate (4096 - length out) 0)) = 4096"
proof -
  show "control_frame s = Some (seal (out @ replicate (4096 - length out) 0))"
    using assms by (simp add: control_frame_def sprintf_format)
  have len: "length (out @ replicate (4096 - length out) 0) = 4096"
    using assms(2) by simp
  show "take 4092 (seal (out @ replicate (4096 - length out) 0))
        = out @ replicate (4092 - length out) 0"
    using assms(2) by (simp add: seal_eq [OF len] min_def)
  show "length (seal (out @ replicate (4096 - length out) 0)) = 4096"
    using assms(2) by (simp add: seal_eq [OF len] length_intToBytes)
qed

lemma control_frame_percent:
  assumes "length s < 4092" and "0x25 \<in> set s" and "0 \<notin> set s"
    and "control_frame s = Some f"
  shows "take 4092 f \<noteq> s @ replicate (4092 - length s) 0"
proof -
  from assms(4) obtain out where out: "format (cstr s) = Some out"
    by (auto simp: control_frame_def sprintf_def split: option.splits)
  then have fo: "format s = Some out"
    using assms(3) by (simp add: cstr_plain)
  have short: "length out < length s"
    using assms(2) fo by (rule format_percent)
  then have lo: "length out < 4092"
    using assms(1) by simp
  have "f = seal (out @ replicate (4096 - length out) 0)"
    using control_frame_format(1) [OF out lo] assms(4) by simp
  then have body: "take 4092 f = out @ replicate (4092 - length out) 0"
    using control_frame_format(2) [OF out lo] by simp
  have "(out @ replicate (4092 - length out) 0) ! length out = 0"
    using lo by (simp add: nth_append)
  moreover have "(s @ replicate (4092 - length s) 0) ! length out = s ! length out"
    using short by (simp add: nth_append)
  moreover have "s ! length out \<noteq> 0"
    using short assms(3) by (metis nth_mem)
  ultimately show ?thesis
    using body by metis
qed

lemma length_reply: "length p < 16 \<Longrightarrow> length (reply p) = 16"
  by (simp add: reply_def)

lemma reply_last: "length p < 16 \<Longrightarrow> (reply p)[15 := 0] = reply p"
proof -
  assume p: "length p < 16"
  have "(replicate (16 - length p) (0::byte))[15 - length p := 0] = replicate (16 - length p) 0"
    by (metis list_update_id(1) list_update_beyond not_le_imp_less nth_replicate length_replicate)
  then show ?thesis
    using p by (simp add: reply_def list_update_append)
qed

lemma attempt_reply:
  "length p < 16 \<Longrightarrow> length bb = 16 \<Longrightarrow> attempt (Datagram (reply p)) bb = (True, reply p)"
  by (simp add: attempt_def recvfrom_def length_reply reply_last)

lemma take_reply:
  assumes "0 \<notin> set lit" and "length p < 16"
  shows "(take (length lit) (reply p) = lit) = (take (length lit) p = lit)"
proof (cases "length lit \<le> length p")
  case True
  then show ?thesis by (simp add: reply_def)
next
  case False
  then have short: "length p < length lit" by simp
  have "take (length lit) (reply p) \<noteq> lit"
  proof
    assume eq: "take (length lit) (reply p) = lit"
    have "lit ! length p = take (length lit) (reply p) ! length p"
      by (simp only: eq)
    also have "\<dots> = reply p ! length p"
      using short by simp
    also have "\<dots> = 0"
      using assms(2) by (simp add: reply_def nth_append)
    finally have "lit ! length p = 0" .
    moreover have "lit ! length p \<in> set lit"
      using short by simp
    ultimately show False
      using assms(1) by simp
  qed
  moreover have "take (length lit) p \<noteq> lit"
  proof
    assume "take (length lit) p = lit"
    then have "length (take (length lit) p) = length lit"
      by simp
    then show False
      using short by simp
  qed
  ultimately show ?thesis by simp
qed

lemma strncmp_reply:
  "length p < 16 \<Longrightarrow>
   strncmp_eq (reply p) (bytes_of ''OK'') 2 = (take 2 p = bytes_of ''OK'')"
  "length p < 16 \<Longrightarrow>
   strncmp_eq (reply p) (bytes_of ''OKSS'') 4 = (take 4 p = bytes_of ''OKSS'')"
proof -
  have l2: "length (bytes_of ''OK'') = 2" and z2: "0 \<notin> set (bytes_of ''OK'')"
    and l4: "length (bytes_of ''OKSS'') = 4" and z4: "0 \<notin> set (bytes_of ''OKSS'')"
    by (simp_all add: bytes_of_def)
  show "length p < 16 \<Longrightarrow>
   strncmp_eq (reply p) (bytes_of ''OK'') 2 = (take 2 p = bytes_of ''OK'')"
    using take_reply [OF z2, of p] unfolding l2 by (simp only: strncmp_OK)
  show "length p < 16 \<Longrightarrow>
   strncmp_eq (reply p) (bytes_of ''OKSS'') 4 = (take 4 p = bytes_of ''OKSS'')"
    using take_reply [OF z4, of p] unfolding l4 by (simp only: strncmp_OKSS)
qed

text \<open>The three replies used below, as the retry loops see them.\<close>

lemma reply_NO:
  "length bb = 16 \<Longrightarrow>
   attempt (Datagram (reply (bytes_of ''NO''))) bb = (True, reply (bytes_of ''NO''))"
  "length (reply (bytes_of ''NO'')) = 16"
  "\<not> strncmp_eq (reply (bytes_of ''NO'')) (bytes_of ''OK'') 2"
  "\<not> strncmp_eq (reply (bytes_of ''NO'')) (bytes_of ''OKSS'') 4"
proof -
  have len: "length (bytes_of ''NO'') < 16"
    by (simp add: bytes_of_def)
  show "length bb = 16 \<Longrightarrow>
   attempt (Datagram (reply (bytes_of ''NO''))) bb = (True, reply (bytes_of ''NO''))"
    using len by (rule attempt_reply)
  show "length (reply (bytes_of ''NO'')) = 16"
    using len by (rule length_reply)
  show "\<not> strncmp_eq (reply (bytes_of ''NO'')) (bytes_of ''OK'') 2"
    unfolding strncmp_reply(1) [OF len] by (simp add: bytes_of_def)
  show "\<not> strncmp_eq (reply (bytes_of ''NO'')) (bytes_of ''OKSS'') 4"
    unfolding strncmp_reply(2) [OF len] by (simp add: bytes_of_def)
qed

lemma reply_OK:
  "length bb = 16 \<Longrightarrow>
   attempt (Datagram (reply (bytes_of ''OK''))) bb = (True, reply (bytes_of ''OK''))"
  "length (reply (bytes_of ''OK'')) = 16"
  "strncmp_eq (reply (bytes_of ''OK'')) (bytes_of ''OK'') 2"
  "\<not> strncmp_eq (reply (bytes_of ''OK'')) (bytes_of ''OKSS'') 4"
proof -
  have len: "length (bytes_of ''OK'') < 16"
    by (simp add: bytes_of_def)
  show "length bb = 16 \<Longrightarrow>
   attempt (Datagram (reply (bytes_of ''OK''))) bb = (True, reply (bytes_of ''OK''))"
    using len by (rule attempt_reply)
  show "length (reply (bytes_of ''OK'')) = 16"
    using len by (rule length_reply)
  show "strncmp_eq (reply (bytes_of ''OK'')) (bytes_of ''OK'') 2"
    unfolding strncmp_reply(1) [OF len] by (simp add: bytes_of_def)
  show "\<not> strncmp_eq (reply (bytes_of ''OK'')) (bytes_of ''OKSS'') 4"
    unfolding strncmp_reply(2) [OF len] by (simp add: bytes_of_def)
qed

lemma bps_of_eq:
  "bps_of buff = push_bit 8 (push_bit 8 (push_bit 8 (ucast (buff ! 4)) + ucast (buff ! 5))
                   + ucast (buff ! 6)) + ucast (buff ! 7)"
proof -
  have "[0..<4] = [0, 1, 2, 3::nat]"
    by code_simp
  then show ?thesis
    by (simp add: bps_of_def)
qed

lemma reply_OKSS_1:
  "length bb = 16 \<Longrightarrow>
   attempt (Datagram (reply (bytes_of ''OKSS'' @ [0, 0, 0, 1]))) bb
     = (True, reply (bytes_of ''OKSS'' @ [0, 0, 0, 1]))"
  "length (reply (bytes_of ''OKSS'' @ [0, 0, 0, 1])) = 16"
  "strncmp_eq (reply (bytes_of ''OKSS'' @ [0, 0, 0, 1])) (bytes_of ''OK'') 2"
  "strncmp_eq (reply (bytes_of ''OKSS'' @ [0, 0, 0, 1])) (bytes_of ''OKSS'') 4"
  "bps_of (reply (bytes_of ''OKSS'' @ [0, 0, 0, 1])) = 1"
proof -
  have len: "length (bytes_of ''OKSS'' @ [0, 0, 0, 1]) < 16"
    by (simp add: bytes_of_def)
  show "length bb = 16 \<Longrightarrow>
   attempt (Datagram (reply (bytes_of ''OKSS'' @ [0, 0, 0, 1]))) bb
     = (True, reply (bytes_of ''OKSS'' @ [0, 0, 0, 1]))"
    using len by (rule attempt_reply)
  show "length (reply (bytes_of ''OKSS'' @ [0, 0, 0, 1])) = 16"
    using len by (rule length_reply)
  show "strncmp_eq (reply (bytes_of ''OKSS'' @ [0, 0, 0, 1])) (bytes_of ''OK'') 2"
    unfolding strncmp_reply(1) [OF len] by (simp add: bytes_of_def)
  show "strncmp_eq (reply (bytes_of ''OKSS'' @ [0, 0, 0, 1])) (bytes_of ''OKSS'') 4"
    unfolding strncmp_reply(2) [OF len] by (simp add: bytes_of_def)
  show "bps_of (reply (bytes_of ''OKSS'' @ [0, 0, 0, 1])) = 1"
    by (simp add: bps_of_eq reply_def bytes_of_def)
qed

lemma fl_norm_numeral:
  "fl_norm (numeral k) x =
     (if x < 2 ^ 23 then fl_norm (pred_numeral k) (2 * x) / 2
      else if 2 ^ 24 \<le> x then fl_norm (pred_numeral k) (x / 2) * 2
      else of_int (round_even x))"
  unfolding numeral_eq_Suc [of k] by (rule fl_norm.simps(2))

lemma floor_rat_numeral:
  "\<lfloor>(numeral a :: rat) / numeral b\<rfloor> = numeral a div numeral b"
  using floor_divide_of_int_eq [of "numeral a" "numeral b", where ?'a = rat] by simp

lemma float32_1: "float32 1 = 1"
  by (simp add: float32_def fl_norm_numeral round_even_def)

lemma float32_4096: "float32 4096 = 4096"
  by (simp add: float32_def fl_norm_numeral round_even_def)

lemma float32_4096000: "float32 4096000 = 4096000"
  by (simp add: float32_def fl_norm_numeral round_even_def)

lemma delay_of_1: "delay_of 1 = Some 4096000"
  by (simp add: delay_of_def float32_1 float32_4096 float32_4096000 floor_rat_numeral)

section \<open>The retry loop of sendString\<close>

lemma back_buff_after_Datagram:
  "length d = 16 \<Longrightarrow> d[15 := 0] = d \<Longrightarrow> length bb = 16 \<Longrightarrow>
   back_buff_after (\<lambda>n. Datagram d) n0 bb (Suc k) = d"
proof (induction k)
  case 0
  then show ?case by (simp add: attempt_def recvfrom_def)
next
  case (Suc k)
  then have "back_buff_after (\<lambda>n. Datagram d) n0 bb (Suc k) = d"
    by simp
  then have "back_buff_after (\<lambda>n. Datagram d) n0 bb (Suc (Suc k)) = snd (attempt (Datagram d) d)"
    by (simp only: back_buff_after.simps)
  then show ?case
    using Suc.prems by (simp add: attempt_def recvfrom_def)
qed

lemma length_bytes_of: "length (bytes_of s) = length s"
  by (simp add: bytes_of_def)

lemma replicate_8: "replicate 8 x = [x, x, x, x, x, x, x, x]"
proof -
  have "(8::nat) = Suc (Suc (Suc (Suc (Suc (Suc (Suc (Suc 0)))))))"
    by simp
  then show ?thesis
    by (simp only: replicate.simps)
qed

lemma control_frame_START:
  "control_frame (bytes_of ''START'') = Some (seal (bytes_of ''START'' @ replicate 4091 0))"
  using control_frame_plain(1) [of "bytes_of ''START''"] by (simp add: bytes_of_def)

lemma send_loop_eighth_OK:
  "send_loop (\<lambda>n. if n = 7 then Datagram (reply (bytes_of ''OK''))
                   else Datagram (reply (bytes_of ''NO'')))
     f 0 (replicate 16 0) world0
   = Some (8, world0\<lparr>sent := replicate 8 f\<rparr>)"
  by (simp add: send_loop.simps reply_NO reply_OK world0_def replicate_8)

text \<open>
  C1. The claim: when the reply to the eighth attempt is a success, the exchange returns
  success. The code returns \<^verbatim>\<open>tries < 8\<close>, which is false after eight attempts
  whatever the eighth reply was: with seven replies \<^verbatim>\<open>NO\<close> and then a reply \<^verbatim>\<open>OK\<close>,
  \<^verbatim>\<open>sendString\<close> sends the frame eight times and returns false.
\<close>

theorem sendString_eighth_reply_OK_fails:
  "sendString (\<lambda>n. if n = 7 then Datagram (reply (bytes_of ''OK''))
                   else Datagram (reply (bytes_of ''NO'')))
     (replicate 16 0) (bytes_of ''START'') world0
   = Some (False, world0\<lparr>sent := replicate 8 (seal (bytes_of ''START'' @ replicate 4091 0))\<rparr>)"
  by (simp add: sendString_def control_frame_START send_loop_eighth_OK)

text \<open>
  When the reply buffer does not start with \<^verbatim>\<open>OK\<close> after any of the eight attempts
  of an exchange, \<^verbatim>\<open>sendString\<close> hands the frame to \<^verbatim>\<open>sendto\<close> exactly eight
  times, changes nothing else, and returns false.
\<close>

lemma sendString_all_nonack:
  assumes "control_frame s = Some frame"
    and "\<forall>k\<in>{1..8}. \<not> strncmp_eq (back_buff_after net (length (sent w)) bb0 k)
                         (bytes_of ''OK'') 2"
  shows "sendString net bb0 s w = Some (False, w\<lparr>sent := sent w @ replicate 8 frame\<rparr>)"
proof -
  have "send_loop net frame (of_nat 0) (back_buff_after net (length (sent w)) bb0 0) w
        = Some (8, w\<lparr>sent := sent w @ replicate (8 - 0) frame\<rparr>)"
    using assms(2) by (intro send_loop_nonack_aux [where d = 7]) auto
  then have "send_loop net frame 0 bb0 w = Some (8, w\<lparr>sent := sent w @ replicate 8 frame\<rparr>)"
    by simp
  then show ?thesis
    using assms(1) by (simp add: sendString_def)
qed

lemma sendString_all_nonack_example:
  "sendString (\<lambda>n. Datagram (reply (bytes_of ''NO''))) (replicate 16 0)
     (bytes_of ''START'') world0
   = Some (False,
       world0\<lparr>sent := sent world0 @ replicate 8 (seal (bytes_of ''START'' @ replicate 4091 0))\<rparr>)"
proof -
  have h2: "\<forall>k\<in>{1..8}. \<not> strncmp_eq
         (back_buff_after (\<lambda>n. Datagram (reply (bytes_of ''NO'')))
            (length (sent world0)) (replicate 16 0) k) (bytes_of ''OK'') 2"
  proof
    fix k :: nat
    assume "k \<in> {1..8}"
    then obtain k' where k: "k = Suc k'"
      by (cases k) auto
    have "back_buff_after (\<lambda>n. Datagram (reply (bytes_of ''NO'')))
            (length (sent world0)) (replicate 16 0) (Suc k')
          = reply (bytes_of ''NO'')"
      by (rule back_buff_after_Datagram) (simp_all add: reply_NO reply_last length_bytes_of)
    then show "\<not> strncmp_eq
         (back_buff_after (\<lambda>n. Datagram (reply (bytes_of ''NO'')))
            (length (sent world0)) (replicate 16 0) k) (bytes_of ''OK'') 2"
      unfolding k by (simp only: reply_NO not_False_eq_True)
  qed
  show ?thesis
    using sendString_all_nonack [OF control_frame_START h2] .
qed

text \<open>
  C2. The claim: when every attempt of an exchange yields a non-acknowledgment, and an
  attempt without a reply is one, the frame is sent exactly eight times and the exchange
  fails. The loop tests the reply buffer, not the reply (\<open>sendString_all_nonack\<close> is
  what holds of the buffer). When no attempt gets a reply and the uninitialised
  \<open>back_buff\<close> starts with \<^verbatim>\<open>OK\<close> on entry, \<^verbatim>\<open>sendString\<close> sends the frame once
  and returns true.
\<close>

theorem sendString_stale_OK_no_reply:
  "sendString (\<lambda>n. RecvError) (reply (bytes_of ''OK'')) (bytes_of ''START'') world0
   = Some (True,
       \<lparr>sleep_time = 0, sent = [seal (bytes_of ''START'' @ replicate 4091 0)], slept = []\<rparr>)"
proof -
  have "send_loop (\<lambda>n. RecvError) f 0 (reply (bytes_of ''OK'')) world0
        = Some (1, \<lparr>sleep_time = 0, sent = [f], slept = []\<rparr>)" for f
    by (subst send_loop.simps)
       (simp add: attempt_def recvfrom_def reply_OK world0_def)
  then show ?thesis
    by (simp add: sendString_def control_frame_START word_sless_alt)
qed

section \<open>Data frames and the streaming loop\<close>

lemma unat_index:
  assumes "i + unat (offset :: 32 word) < 2 ^ 32"
  shows "unat (word_of_nat i + offset) = i + unat offset"
proof -
  have "unat (word_of_nat i + offset) = (i mod 2 ^ 32 + unat offset) mod 2 ^ 32"
    by (simp add: unat_word_ariths unat_of_nat)
  also have "\<dots> = i + unat offset"
    using assms by simp
  finally show ?thesis .
qed

lemma payload_eq:
  assumes "unat (offset :: 32 word) + n \<le> length file_bytes" and "length file_bytes < 2 ^ 32"
  shows "map (\<lambda>i. file_bytes ! unat (word_of_nat i + offset)) [0..<n]
         = take n (drop (unat offset) file_bytes)"
proof (rule nth_equalityI)
  show "length (map (\<lambda>i. file_bytes ! unat (word_of_nat i + offset)) [0..<n])
        = length (take n (drop (unat offset) file_bytes))"
    using assms(1) by simp
next
  fix i
  assume "i < length (map (\<lambda>i. file_bytes ! unat (word_of_nat i + offset)) [0..<n])"
  then have i: "i < n" by simp
  then have "i + unat offset < 2 ^ 32"
    using assms by linarith
  then have "unat (word_of_nat i + offset) = i + unat offset"
    by (rule unat_index)
  then show "map (\<lambda>i. file_bytes ! unat (word_of_nat i + offset)) [0..<n] ! i
             = take n (drop (unat offset) file_bytes) ! i"
    using i assms(1) by (simp add: add.commute)
qed

lemma data_frame_eq:
  assumes "length buffer2 = 4096" and "unat offset < length file_bytes"
    and "length file_bytes < 2 ^ 32"
  defines "chunk \<equiv> take 4084 (drop (unat offset) file_bytes)"
  defines "body \<equiv> bytes_of ''DATA'' @ intToBytes offset @ chunk
                    @ take (4084 - length chunk) (drop (8 + length chunk) buffer2)"
  shows "data_frame buffer2 file_bytes offset = body @ intToBytes (crc32c 0 body 4092)"
    and "length body = 4092"
proof -
  define n where "n = (if 4096 - 12 < length file_bytes - unat offset then 4096 - 12
               else length file_bytes - unat offset)"
  have n: "n = min 4084 (length file_bytes - unat offset)"
    by (simp add: n_def min_def)
  have lc: "length chunk = n"
    by (simp add: chunk_def n min.commute)
  have n_le: "n \<le> 4084" and n_fit: "unat offset + n \<le> length file_bytes"
    using assms(2) by (simp_all add: n)
  have payload: "map (\<lambda>i. file_bytes ! unat (word_of_nat i + offset)) [0..<n] = chunk"
  proof -
    have "map (\<lambda>i. file_bytes ! unat (word_of_nat i + offset)) [0..<n]
          = take n (drop (unat offset) file_bytes)"
      using n_fit assms(3) by (rule payload_eq)
    also have "\<dots> = chunk"
      by (cases "4084 \<le> length (drop (unat offset) file_bytes)")
         (simp_all add: chunk_def n min_def)
    finally show ?thesis .
  qed
  have lD: "length (bytes_of ''DATA'') = 4"
    by (simp add: bytes_of_def)
  let ?b1 = "store buffer2 0 (bytes_of ''DATA'')"
  have b1: "?b1 = bytes_of ''DATA'' @ drop 4 buffer2"
    using assms(1) by (simp add: store_eq lD)
  let ?b2 = "store ?b1 4 (intToBytes offset)"
  have b2: "?b2 = bytes_of ''DATA'' @ intToBytes offset @ drop 8 buffer2"
    using assms(1) by (simp add: b1 store_eq lD length_intToBytes)
  let ?b3 = "store ?b2 8 chunk"
  have b3: "?b3 = bytes_of ''DATA'' @ intToBytes offset @ chunk @ drop (8 + n) buffer2"
    using assms(1) n_le by (simp add: b2 store_eq lD length_intToBytes lc add.commute)
  have len3: "length ?b3 = 4096"
    using assms(1) n_le by (simp add: b3 lD length_intToBytes lc)
  have body3: "take 4092 ?b3 = body"
    using assms(1) n_le by (simp add: b3 body_def lD length_intToBytes lc)
  have "data_frame buffer2 file_bytes offset = seal ?b3"
    by (simp only: data_frame_def Let_def n_def [symmetric] payload)
  also have "\<dots> = take 4092 ?b3 @ intToBytes (crc32c 0 ?b3 4092)"
    using len3 by (rule seal_eq)
  also have "crc32c 0 ?b3 4092 = crc32c 0 (take 4092 ?b3) 4092"
    by (simp add: crc32c_def)
  finally show "data_frame buffer2 file_bytes offset = body @ intToBytes (crc32c 0 body 4092)"
    by (simp only: body3)
  show "length body = 4092"
    using assms(1) n_le by (simp add: body_def lD length_intToBytes lc)
qed

lemma data_loop_acked:
  assumes "attempt (net (length (sent w))) bb = (r, bb')"
    and "strncmp_eq bb' (bytes_of ''OK'') 2"
    and "(if strncmp_eq bb (bytes_of ''OKSS'') 4 then delay_of (bps_of bb)
          else Some (sleep_time w)) = Some t"
  shows "data_loop net f 0 bb w = Some (1, bb', w\<lparr>sleep_time := t, sent := sent w @ [f]\<rparr>)"
  by (subst data_loop.simps) (simp add: assms)

lemma last_byte_cleared:
  assumes "length d = 16"
  shows "strncmp_eq (d[15 := 0]) (bytes_of ''OK'') 2 = strncmp_eq d (bytes_of ''OK'') 2"
    and "strncmp_eq (d[15 := 0]) (bytes_of ''OKSS'') 4 = strncmp_eq d (bytes_of ''OKSS'') 4"
    and "bps_of (d[15 := 0]) = bps_of d"
    and "hint_defined (d[15 := 0]) = hint_defined d"
proof -
  show a: "strncmp_eq (d[15 := 0]) (bytes_of ''OK'') 2 = strncmp_eq d (bytes_of ''OK'') 2"
    by (simp add: strncmp_OK take_update_cancel)
  show b: "strncmp_eq (d[15 := 0]) (bytes_of ''OKSS'') 4 = strncmp_eq d (bytes_of ''OKSS'') 4"
    by (simp add: strncmp_OKSS take_update_cancel)
  show c: "bps_of (d[15 := 0]) = bps_of d"
    by (simp add: bps_of_eq)
  show "hint_defined (d[15 := 0]) = hint_defined d"
    by (simp only: hint_defined_def b c)
qed

lemma stream_step_acked:
  assumes "unat offset < length file_bytes"
    and "net (length (sent w)) = Datagram d" and "length d = 16"
    and "strncmp_eq d (bytes_of ''OK'') 2"
    and "length bb = 16" and "hint_defined bb"
  shows "\<exists>t. stream net file_bytes offset buffer2 bb w
           = stream net file_bytes (offset + 4084) (ZeroMemory 4096) (d[15 := 0])
               (w\<lparr>sleep_time := t, sent := sent w @ [data_frame buffer2 file_bytes offset],
                  slept := slept w @ [t]\<rparr>)"
proof -
  have "(if strncmp_eq bb (bytes_of ''OKSS'') 4 then delay_of (bps_of bb)
          else Some (sleep_time w)) \<noteq> None"
    using assms(6) by (simp add: hint_defined_def)
  then obtain t where t: "(if strncmp_eq bb (bytes_of ''OKSS'') 4 then delay_of (bps_of bb)
          else Some (sleep_time w)) = Some t"
    by blast
  have att: "attempt (net (length (sent w))) bb = (True, d[15 := 0])"
    using assms(2,3,5) by (simp add: attempt_def recvfrom_def)
  have ok: "strncmp_eq (d[15 := 0]) (bytes_of ''OK'') 2"
    using assms(3,4) by (simp only: last_byte_cleared)
  have "data_loop net (data_frame buffer2 file_bytes offset) 0 bb w
        = Some (1, d[15 := 0],
            w\<lparr>sleep_time := t, sent := sent w @ [data_frame buffer2 file_bytes offset]\<rparr>)"
    using att ok t by (rule data_loop_acked)
  then have "stream net file_bytes offset buffer2 bb w
           = stream net file_bytes (offset + 4084) (ZeroMemory 4096) (d[15 := 0])
               (w\<lparr>sleep_time := t, sent := sent w @ [data_frame buffer2 file_bytes offset],
                  slept := slept w @ [t]\<rparr>)"
    using assms(1) by (subst stream.simps) simp
  then show ?thesis ..
qed

lemma stream_step:
  assumes "unat offset < length file_bytes"
    and "attempt (net (length (sent w))) bb = (r, bb')"
    and "strncmp_eq bb' (bytes_of ''OK'') 2"
    and "(if strncmp_eq bb (bytes_of ''OKSS'') 4 then delay_of (bps_of bb)
          else Some (sleep_time w)) = Some t"
    and "offset' = offset + 4084"
    and "w' = w\<lparr>sleep_time := t, sent := sent w @ [data_frame buffer2 file_bytes offset],
                 slept := slept w @ [t]\<rparr>"
  shows "stream net file_bytes offset buffer2 bb w
           = stream net file_bytes offset' (ZeroMemory 4096) bb' w'"
proof -
  have "data_loop net (data_frame buffer2 file_bytes offset) 0 bb w
        = Some (1, bb',
            w\<lparr>sleep_time := t, sent := sent w @ [data_frame buffer2 file_bytes offset]\<rparr>)"
    using assms(2-4) by (rule data_loop_acked)
  then show ?thesis
    using assms(1) unfolding assms(5,6) by (subst stream.simps) simp
qed

lemma stream_end:
  "\<not> unat offset < length file_bytes \<Longrightarrow>
   stream net file_bytes offset buffer2 bb w = Some (Done, w)"
  by (subst stream.simps) simp

lemma zeros_not_OK:
  "\<not> strncmp_eq (replicate 16 0) (bytes_of ''OK'') 2"
  "\<not> strncmp_eq (replicate 16 0) (bytes_of ''OKSS'') 4"
proof -
  have "replicate 16 (0::byte) = 0 # replicate 15 0"
    by (simp add: replicate_Suc [symmetric] del: replicate_Suc)
  then have "take 2 (replicate 16 (0::byte)) \<noteq> bytes_of ''OK''"
    by (simp add: bytes_of_def)
  then show a: "\<not> strncmp_eq (replicate 16 0) (bytes_of ''OK'') 2"
    by (simp only: strncmp_OK not_False_eq_True)
  then show "\<not> strncmp_eq (replicate 16 0) (bytes_of ''OKSS'') 4"
    using OKSS_imp_OK by blast
qed

lemma control_step_acked:
  assumes "length str < 120" and "control_frame (cstr str) = Some f"
    and "attempt (net (length (sent w))) (back_buff0 stk (length (sent w))) = (True, bb)"
    and "strncmp_eq bb (bytes_of ''OK'') 2"
    and "\<not> strncmp_eq bb (bytes_of ''OKSS'') 4"
  shows "control_step net stk str err w k = k (w\<lparr>sent := sent w @ [f]\<rparr>)"
proof -
  have "send_loop net f 0 (back_buff0 stk (length (sent w))) w
        = Some (1, w\<lparr>sent := sent w @ [f]\<rparr>)"
    using assms(3-5) by (subst send_loop.simps) simp
  then have "sendString net (back_buff0 stk (length (sent w))) (cstr str) w
             = Some (True, w\<lparr>sent := sent w @ [f]\<rparr>)"
    using assms(2) by (simp add: sendString_def word_sless_alt)
  then show ?thesis
    using assms(1) by (simp add: control_step_def)
qed

lemma junk_not_OK:
  assumes "c \<noteq> 0x4F"
  shows "\<not> strncmp_eq (replicate 16 c) (bytes_of ''OK'') 2"
    and "\<not> strncmp_eq (replicate 16 c) (bytes_of ''OKSS'') 4"
proof -
  have "replicate 16 c = c # replicate 15 c"
    by (simp add: replicate_Suc [symmetric] del: replicate_Suc)
  then have "take 2 (replicate 16 c) \<noteq> bytes_of ''OK''"
    using assms by (simp add: bytes_of_def)
  then show a: "\<not> strncmp_eq (replicate 16 c) (bytes_of ''OK'') 2"
    by (simp only: strncmp_OK not_False_eq_True)
  then show "\<not> strncmp_eq (replicate 16 c) (bytes_of ''OKSS'') 4"
    using OKSS_imp_OK by blast
qed

lemma control_frame_literal:
  assumes "length s < 4092" and "0x25 \<notin> set s" and "0 \<notin> set s"
  shows "control_frame (cstr s) = Some (seal (s @ replicate (4096 - length s) 0))"
  using assms by (simp add: cstr_plain control_frame_plain)

lemma intToBytes_offsets:
  "intToBytes 0 = [0, 0, 0, 0]"
  "intToBytes 4084 = [0, 0, 0x0F, 0xF4]"
  "intToBytes 8168 = [0, 0, 0x1F, 0xE8]"
  by (simp_all add: intToBytes_def)

text \<open>
  C6. A file of 10000 bytes, every exchange acknowledged at its first attempt: the
  streaming loop ends normally after exactly three data frames; their offset fields are
  0, 4084 and 8168 big-endian; the first two carry 4084 bytes of the file each, the third
  the last 1832 bytes followed by zeros. This holds whatever \<open>buffer2\<close> and
  \<open>backbuffer\<close> held at the start.
\<close>

theorem stream_10000:
  assumes "length file_bytes = 10000" and "length buffer2 = 4096"
    and "length backbuffer = 16" and "hint_defined backbuffer"
    and "\<forall>n. \<exists>d. net n = Datagram d \<and> length d = 16
               \<and> strncmp_eq d (bytes_of ''OK'') 2 \<and> hint_defined d"
  shows "\<exists>w' f1 f2 f3.
           stream net file_bytes 0 buffer2 backbuffer w = Some (Done, w')
           \<and> sent w' = sent w @ [f1, f2, f3]
           \<and> length f1 = 4096 \<and> length f2 = 4096 \<and> length f3 = 4096
           \<and> take 4092 f1 = bytes_of ''DATA'' @ [0, 0, 0, 0] @ take 4084 file_bytes
           \<and> take 4092 f2 = bytes_of ''DATA'' @ [0, 0, 0x0F, 0xF4]
                               @ take 4084 (drop 4084 file_bytes)
           \<and> take 4092 f3 = bytes_of ''DATA'' @ [0, 0, 0x1F, 0xE8]
                               @ drop 8168 file_bytes @ replicate 2252 0
           \<and> length (drop 8168 file_bytes) = 1832"
proof -
  let ?Z = "ZeroMemory 4096"
  let ?f1 = "data_frame buffer2 file_bytes 0"
  let ?f2 = "data_frame ?Z file_bytes 4084"
  let ?f3 = "data_frame ?Z file_bytes 8168"
  have small: "length file_bytes < 2 ^ 32"
    using assms(1) by simp
  have lz: "length ?Z = 4096"
    by (simp add: ZeroMemory_def)
  obtain d1 where d1: "net (length (sent w)) = Datagram d1" "length d1 = 16"
    "strncmp_eq d1 (bytes_of ''OK'') 2" "hint_defined d1"
    using assms(5) by blast
  obtain t1 where s1: "stream net file_bytes 0 buffer2 backbuffer w
      = stream net file_bytes (0 + 4084) ?Z (d1[15 := 0])
          (w\<lparr>sleep_time := t1, sent := sent w @ [?f1], slept := slept w @ [t1]\<rparr>)"
    using stream_step_acked [of 0 file_bytes net w d1 backbuffer buffer2] assms(1,3,4) d1
    by auto
  let ?w1 = "w\<lparr>sleep_time := t1, sent := sent w @ [?f1], slept := slept w @ [t1]\<rparr>"
  obtain d2 where d2: "net (length (sent ?w1)) = Datagram d2" "length d2 = 16"
    "strncmp_eq d2 (bytes_of ''OK'') 2" "hint_defined d2"
    using assms(5) by blast
  obtain t2 where s2: "stream net file_bytes 4084 ?Z (d1[15 := 0]) ?w1
      = stream net file_bytes (4084 + 4084) ?Z (d2[15 := 0])
          (?w1\<lparr>sleep_time := t2, sent := sent ?w1 @ [?f2], slept := slept ?w1 @ [t2]\<rparr>)"
    using stream_step_acked [of 4084 file_bytes net ?w1 d2 "d1[15 := 0]" ?Z] assms(1) d1 d2
    by (auto simp: last_byte_cleared)
  let ?w2 = "?w1\<lparr>sleep_time := t2, sent := sent ?w1 @ [?f2], slept := slept ?w1 @ [t2]\<rparr>"
  obtain d3 where d3: "net (length (sent ?w2)) = Datagram d3" "length d3 = 16"
    "strncmp_eq d3 (bytes_of ''OK'') 2" "hint_defined d3"
    using assms(5) by blast
  obtain t3 where s3: "stream net file_bytes 8168 ?Z (d2[15 := 0]) ?w2
      = stream net file_bytes (8168 + 4084) ?Z (d3[15 := 0])
          (?w2\<lparr>sleep_time := t3, sent := sent ?w2 @ [?f3], slept := slept ?w2 @ [t3]\<rparr>)"
    using stream_step_acked [of 8168 file_bytes net ?w2 d3 "d2[15 := 0]" ?Z] assms(1) d2 d3
    by (auto simp: last_byte_cleared)
  let ?w3 = "?w2\<lparr>sleep_time := t3, sent := sent ?w2 @ [?f3], slept := slept ?w2 @ [t3]\<rparr>"
  have s4: "stream net file_bytes 12252 ?Z (d3[15 := 0]) ?w3 = Some (Done, ?w3)"
    using assms(1) by (subst stream.simps) simp
  have run: "stream net file_bytes 0 buffer2 backbuffer w = Some (Done, ?w3)"
    using s1 s2 s3 s4 by simp
  have sent3: "sent ?w3 = sent w @ [?f1, ?f2, ?f3]"
    by simp
  have f1: "take 4092 ?f1 = bytes_of ''DATA'' @ [0, 0, 0, 0] @ take 4084 file_bytes"
    and l1: "length ?f1 = 4096"
    using data_frame_eq [of buffer2 0 file_bytes] assms(1,2)
    by (simp_all add: intToBytes_offsets length_intToBytes)
  have f2: "take 4092 ?f2 = bytes_of ''DATA'' @ [0, 0, 0x0F, 0xF4]
                               @ take 4084 (drop 4084 file_bytes)"
    and l2: "length ?f2 = 4096"
    using data_frame_eq [of ?Z 4084 file_bytes] assms(1) lz
    by (simp_all add: intToBytes_offsets length_intToBytes)
  have f3: "take 4092 ?f3 = bytes_of ''DATA'' @ [0, 0, 0x1F, 0xE8]
                               @ drop 8168 file_bytes @ replicate 2252 0"
    and l3: "length ?f3 = 4096"
    using data_frame_eq [of ?Z 8168 file_bytes] assms(1) lz
    by (simp_all add: intToBytes_offsets length_intToBytes ZeroMemory_def)
  have "length (drop 8168 file_bytes) = 1832"
    using assms(1) by simp
  with run sent3 f1 f2 f3 l1 l2 l3 show ?thesis
    by blast
qed

theorem stream_10000_witness:
  "\<exists>w' f1 f2 f3.
     stream (\<lambda>n. Datagram (reply (bytes_of ''OK''))) (replicate 10000 0x61) 0
       (replicate 4096 0xCC) (replicate 16 0xCC) world0 = Some (Done, w')
     \<and> sent w' = sent world0 @ [f1, f2, f3]
     \<and> length f1 = 4096 \<and> length f2 = 4096 \<and> length f3 = 4096
     \<and> take 4092 f1 = bytes_of ''DATA'' @ [0, 0, 0, 0] @ take 4084 (replicate 10000 0x61)
     \<and> take 4092 f2 = bytes_of ''DATA'' @ [0, 0, 0x0F, 0xF4]
                         @ take 4084 (drop 4084 (replicate 10000 0x61))
     \<and> take 4092 f3 = bytes_of ''DATA'' @ [0, 0, 0x1F, 0xE8]
                         @ drop 8168 (replicate 10000 0x61) @ replicate 2252 0
     \<and> length (drop 8168 (replicate 10000 (0x61::byte))) = 1832"
proof (rule stream_10000)
  show "length (replicate 10000 (0x61::byte)) = 10000"
    by simp
  show "length (replicate 4096 (0xCC::byte)) = 4096"
    by simp
  show "length (replicate 16 (0xCC::byte)) = 16"
    by simp
  show "hint_defined (replicate 16 0xCC)"
    by (simp add: hint_defined_def junk_not_OK)
  show "\<forall>n. \<exists>d. (\<lambda>n. Datagram (reply (bytes_of ''OK''))) n = Datagram d \<and> length d = 16
               \<and> strncmp_eq d (bytes_of ''OK'') 2 \<and> hint_defined d"
    by (simp add: hint_defined_def reply_OK)
qed

text \<open>
  C3. The claim: a reply is classified from the current reply alone, and an attempt on
  which no reply arrives is never a success. The loops test the reply buffer, which keeps
  the previous reply when nothing is received. In the streaming loop \<open>backbuffer\<close>
  outlives the frame: after a first data frame acknowledged with \<^verbatim>\<open>OK\<close>, the second
  frame gets no reply at all (\<^verbatim>\<open>recvfrom\<close> fails), is sent once and is taken as
  acknowledged; the loop ends normally.
\<close>

theorem stream_no_reply_accepted:
  "stream (\<lambda>n. if n = 0 then Datagram (reply (bytes_of ''OK'')) else RecvError)
     (replicate 4085 0x61) 0 (replicate 4096 0) (replicate 16 0) world0
   = Some (Done,
       \<lparr>sleep_time = 0,
        sent = [data_frame (replicate 4096 0) (replicate 4085 0x61) 0,
                data_frame (ZeroMemory 4096) (replicate 4085 0x61) 4084],
        slept = [0, 0]\<rparr>)"
proof -
  let ?net = "\<lambda>n::nat. if n = 0 then Datagram (reply (bytes_of ''OK'')) else RecvError"
  let ?file = "replicate 4085 (0x61::byte)"
  let ?f1 = "data_frame (replicate 4096 0) ?file 0"
  let ?f2 = "data_frame (ZeroMemory 4096) ?file 4084"
  let ?w1 = "world0\<lparr>sleep_time := 0, sent := sent world0 @ [?f1], slept := slept world0 @ [0]\<rparr>"
  let ?w2 = "?w1\<lparr>sleep_time := 0, sent := sent ?w1 @ [?f2], slept := slept ?w1 @ [0]\<rparr>"
  have "stream ?net ?file 0 (replicate 4096 0) (replicate 16 0) world0
        = stream ?net ?file 4084 (ZeroMemory 4096) (reply (bytes_of ''OK'')) ?w1"
    by (rule stream_step [where r = True and t = 0])
       (simp_all add: world0_def reply_OK zeros_not_OK)
  also have "\<dots> = stream ?net ?file 8168 (ZeroMemory 4096) (reply (bytes_of ''OK'')) ?w2"
    by (rule stream_step [where r = False and t = 0])
       (simp_all add: world0_def reply_OK attempt_def recvfrom_def)
  also have "\<dots> = Some (Done, ?w2)"
    by (rule stream_end) simp
  finally show ?thesis
    by (simp add: world0_def)
qed

text \<open>
  C9. The claim: after a data frame acknowledged with a rate hint, the sleep that follows
  already uses the new delay. The streaming loop reads the hint at the top of the next
  turn of its retry loop, after the sleep: with a reply \<^verbatim>\<open>OKSS\<close> and rate 1 to the
  first of two data frames, the sleep after that frame is 0 ms and only the sleep after
  the second frame is 4096000 ms.
\<close>

theorem rate_hint_applied_after_sleep:
  "stream (\<lambda>n. if n = 0 then Datagram (reply (bytes_of ''OKSS'' @ [0, 0, 0, 1]))
               else Datagram (reply (bytes_of ''OK'')))
     (replicate 4085 0x61) 0 (replicate 4096 0) (replicate 16 0) world0
   = Some (Done,
       \<lparr>sleep_time = 4096000,
        sent = [data_frame (replicate 4096 0) (replicate 4085 0x61) 0,
                data_frame (ZeroMemory 4096) (replicate 4085 0x61) 4084],
        slept = [0, 4096000]\<rparr>)"
proof -
  let ?net = "\<lambda>n::nat. if n = 0 then Datagram (reply (bytes_of ''OKSS'' @ [0, 0, 0, 1]))
               else Datagram (reply (bytes_of ''OK''))"
  let ?file = "replicate 4085 (0x61::byte)"
  let ?f1 = "data_frame (replicate 4096 0) ?file 0"
  let ?f2 = "data_frame (ZeroMemory 4096) ?file 4084"
  let ?w1 = "world0\<lparr>sleep_time := 0, sent := sent world0 @ [?f1], slept := slept world0 @ [0]\<rparr>"
  let ?w2 = "?w1\<lparr>sleep_time := 4096000, sent := sent ?w1 @ [?f2],
                slept := slept ?w1 @ [4096000]\<rparr>"
  have "stream ?net ?file 0 (replicate 4096 0) (replicate 16 0) world0
        = stream ?net ?file 4084 (ZeroMemory 4096)
            (reply (bytes_of ''OKSS'' @ [0, 0, 0, 1])) ?w1"
    by (rule stream_step [where r = True and t = 0])
       (simp_all add: world0_def reply_OKSS_1 zeros_not_OK)
  also have "\<dots> = stream ?net ?file 8168 (ZeroMemory 4096) (reply (bytes_of ''OK'')) ?w2"
    by (rule stream_step [where r = True and t = 4096000])
       (simp_all add: world0_def reply_OKSS_1 reply_OK delay_of_1)
  also have "\<dots> = Some (Done, ?w2)"
    by (rule stream_end) simp
  finally show ?thesis
    by (simp add: world0_def)
qed

section \<open>Whole runs\<close>

lemma data_frame_hello:
  "data_frame (replicate 4096 0xCC) (bytes_of ''hello'') 0
   = (bytes_of ''DATA'' @ [0, 0, 0, 0] @ bytes_of ''hello'' @ replicate 4079 0xCC)
     @ intToBytes (crc32c 0
         (bytes_of ''DATA'' @ [0, 0, 0, 0] @ bytes_of ''hello'' @ replicate 4079 0xCC) 4092)"
  using data_frame_eq(1) [of "replicate 4096 0xCC" 0 "bytes_of ''hello''"]
  by (simp add: intToBytes_offsets length_bytes_of)

text \<open>
  C7. The claim: for the file \<^verbatim>\<open>hello\<close> the frames are \<^verbatim>\<open>NAME=\<close>, \<^verbatim>\<open>SIZE=5\<close>,
  \<^verbatim>\<open>HASH=\<close>, \<^verbatim>\<open>START\<close>, one data frame whose payload is followed by 4079 zero
  bytes, and \<^verbatim>\<open>STOP\<close>. The six frames are sent in that order, but \<open>buffer2\<close> is
  zeroed only at the end of each turn of the streaming loop, never before the first: the
  padding of the first data frame is whatever \<open>buffer2\<close> held. With \<open>buffer2\<close>
  filled with \<open>0xCC\<close> at the start, the payload is followed by 4079 bytes \<open>0xCC\<close>.
\<close>

theorem tmain_hello_padding:
  "map_option (\<lambda>(st, w). (st, map (take 4092) (sent w)))
     (tmain (\<lambda>b. bytes_of ''5d41402abc4b2a76b9719d911017c592'')
        (\<lambda>n. Datagram (reply (bytes_of ''OK'')))
        \<lparr>back_buff0 = \<lambda>n. replicate 16 0xCC, buffer2_0 = replicate 4096 0xCC,
         backbuffer0 = replicate 16 0xCC\<rparr>
        (bytes_of ''hello'') (bytes_of ''out.txt''))
   = Some (Done,
       [bytes_of ''NAME=out.txt'' @ replicate 4080 0,
        bytes_of ''SIZE=5'' @ replicate 4086 0,
        bytes_of ''HASH=5d41402abc4b2a76b9719d911017c592'' @ replicate 4055 0,
        bytes_of ''START'' @ replicate 4087 0,
        bytes_of ''DATA'' @ [0, 0, 0, 0] @ bytes_of ''hello'' @ replicate 4079 0xCC,
        bytes_of ''STOP'' @ replicate 4088 0])"
proof -
  let ?net = "\<lambda>n::nat. Datagram (reply (bytes_of ''OK''))"
  let ?stk = "\<lparr>back_buff0 = \<lambda>n::nat. replicate 16 (0xCC::byte),
               buffer2_0 = replicate 4096 0xCC, backbuffer0 = replicate 16 0xCC\<rparr>"
  let ?name = "bytes_of ''NAME=out.txt''"
  let ?size = "bytes_of ''SIZE=5''"
  let ?hash = "bytes_of ''HASH=5d41402abc4b2a76b9719d911017c592''"
  let ?start = "bytes_of ''START''"
  let ?stop = "bytes_of ''STOP''"
  let ?F = "\<lambda>s. seal (s @ replicate (4096 - length s) 0)"
  let ?D = "data_frame (replicate 4096 0xCC) (bytes_of ''hello'') 0"
  have step: "control_step ?net ?stk s err w k = k (w\<lparr>sent := sent w @ [?F s]\<rparr>)"
    if "length s < 120" and "0x25 \<notin> set s" and "0 \<notin> set s" for s err w k
  proof (rule control_step_acked [where bb = "reply (bytes_of ''OK'')"])
    show "length s < 120" by fact
    show "control_frame (cstr s) = Some (?F s)"
      using that by (intro control_frame_literal) simp_all
  qed (simp_all add: reply_OK)
  have cmds:
    "bytes_of ''NAME='' @ cstr (bytes_of ''out.txt'') = ?name"
    "bytes_of ''SIZE='' @ printf_ld (word_of_nat (length (ReadAllBytes (bytes_of ''hello''))))
       = ?size"
    "bytes_of ''HASH='' @ bytes_of ''5d41402abc4b2a76b9719d911017c592'' = ?hash"
    by (simp_all add: cstr_def ReadAllBytes_def printf_ld_def digits.simps bytes_of_def)
  have ok: "length s < 120 \<and> 0x25 \<notin> set s \<and> 0 \<notin> set s"
    if "s \<in> {?name, ?size, ?hash, ?start, ?stop}" for s
    using that by (auto simp: bytes_of_def)
  let ?w4 = "\<lparr>sleep_time = 0, sent = [?F ?name, ?F ?size, ?F ?hash, ?F ?start],
              slept = []\<rparr>"
  let ?w5 = "\<lparr>sleep_time = 0, sent = [?F ?name, ?F ?size, ?F ?hash, ?F ?start, ?D],
              slept = [0]\<rparr>"
  have str: "stream ?net (bytes_of ''hello'') 0 (replicate 4096 0xCC) (replicate 16 0xCC) ?w4
             = Some (Done, ?w5)"
  proof -
    have "stream ?net (bytes_of ''hello'') 0 (replicate 4096 0xCC) (replicate 16 0xCC) ?w4
          = stream ?net (bytes_of ''hello'') 4084 (ZeroMemory 4096) (reply (bytes_of ''OK'')) ?w5"
      by (rule stream_step [where r = True and t = 0])
         (simp_all add: world0_def reply_OK junk_not_OK length_bytes_of)
    also have "\<dots> = Some (Done, ?w5)"
      by (rule stream_end) (simp add: length_bytes_of)
    finally show ?thesis .
  qed
  have run: "tmain (\<lambda>b. bytes_of ''5d41402abc4b2a76b9719d911017c592'') ?net ?stk
               (bytes_of ''hello'') (bytes_of ''out.txt'')
             = Some (Done, ?w5\<lparr>sent := sent ?w5 @ [?F ?stop]\<rparr>)"
    unfolding tmain_def Let_def cmds
    by (simp add: step ok ReadAllBytes_def str world0_def)
  have body: "take 4092 (?F s) = s @ replicate (4092 - length s) 0"
    if "length s < 120" and "0x25 \<notin> set s" and "0 \<notin> set s" for s
    using that control_frame_plain(2) [of s] by simp
  have bodies:
    "take 4092 (?F ?name) = ?name @ replicate 4080 0"
    "take 4092 (?F ?size) = ?size @ replicate 4086 0"
    "take 4092 (?F ?hash) = ?hash @ replicate 4055 0"
    "take 4092 (?F ?start) = ?start @ replicate 4087 0"
    "take 4092 (?F ?stop) = ?stop @ replicate 4088 0"
    using body [of ?name] body [of ?size] body [of ?hash] body [of ?start] body [of ?stop] ok
    by (simp_all add: length_bytes_of)
  have dbody: "take 4092 ?D
               = bytes_of ''DATA'' @ [0, 0, 0, 0] @ bytes_of ''hello'' @ replicate 4079 0xCC"
    by (simp add: data_frame_hello length_bytes_of)
  show ?thesis
    unfolding run by (simp add: bodies dbody world0_def)
qed

lemma sendString_rate_hint_applied:
  "sendString (\<lambda>n. Datagram (reply (bytes_of ''OKSS'' @ [0, 0, 0, 1]))) (replicate 16 0)
     (bytes_of ''START'') world0
   = Some (True, \<lparr>sleep_time = 4096000,
                   sent = [seal (bytes_of ''START'' @ replicate 4091 0)], slept = []\<rparr>)"
proof -
  have "send_loop (\<lambda>n. Datagram (reply (bytes_of ''OKSS'' @ [0, 0, 0, 1]))) f 0
          (replicate 16 0) world0
        = Some (1, \<lparr>sleep_time = 4096000, sent = [f], slept = []\<rparr>)" for f
    by (subst send_loop.simps) (simp add: reply_OKSS_1 delay_of_1 world0_def)
  then show ?thesis
    by (simp add: sendString_def control_frame_START word_sless_alt)
qed

text \<open>
  C8. The claim: whenever a reply carries a rate hint, the delay is set from it. A reply
  \<^verbatim>\<open>OKSS\<close> with rate 1 asks for 4096000 ms, and \<^verbatim>\<open>sendString\<close> sets that delay as
  soon as it has received the reply (\<open>sendString_rate_hint_applied\<close>). In the
  streaming loop the hint is read only at the top of the next turn, so the hint in the
  reply to the last data frame is never read: for a one-byte file whose data frame is
  acknowledged with that reply, the run ends with \<open>sleep_time\<close> still 0 and a single
  sleep of 0 ms.
\<close>

theorem tmain_last_rate_hint_dropped:
  "delay_of (bps_of (reply (bytes_of ''OKSS'' @ [0, 0, 0, 1]))) = Some 4096000
   \<and> map_option (\<lambda>(st, w). (st, length (sent w), slept w, sleep_time w))
        (tmain (\<lambda>b. bytes_of ''0cc175b9c0f1b6a831c399e269772661'')
           (\<lambda>n. if n = 4 then Datagram (reply (bytes_of ''OKSS'' @ [0, 0, 0, 1]))
                else Datagram (reply (bytes_of ''OK'')))
           \<lparr>back_buff0 = \<lambda>n. replicate 16 0, buffer2_0 = replicate 4096 0,
            backbuffer0 = replicate 16 0\<rparr>
           (bytes_of ''a'') (bytes_of ''out.txt''))
      = Some (Done, 6, [0], 0)"
proof -
  let ?net = "\<lambda>n::nat. if n = 4 then Datagram (reply (bytes_of ''OKSS'' @ [0, 0, 0, 1]))
                else Datagram (reply (bytes_of ''OK''))"
  let ?stk = "\<lparr>back_buff0 = \<lambda>n::nat. replicate 16 (0::byte),
               buffer2_0 = replicate 4096 0, backbuffer0 = replicate 16 0\<rparr>"
  let ?name = "bytes_of ''NAME=out.txt''"
  let ?size = "bytes_of ''SIZE=1''"
  let ?hash = "bytes_of ''HASH=0cc175b9c0f1b6a831c399e269772661''"
  let ?start = "bytes_of ''START''"
  let ?stop = "bytes_of ''STOP''"
  let ?F = "\<lambda>s. seal (s @ replicate (4096 - length s) 0)"
  let ?D = "data_frame (replicate 4096 0) (bytes_of ''a'') 0"
  have step: "control_step ?net ?stk s err w k = k (w\<lparr>sent := sent w @ [?F s]\<rparr>)"
    if "length s < 120" and "0x25 \<notin> set s" and "0 \<notin> set s" and "length (sent w) \<noteq> 4"
    for s err w k
  proof (rule control_step_acked [where bb = "reply (bytes_of ''OK'')"])
    show "length s < 120" by fact
    show "control_frame (cstr s) = Some (?F s)"
      using that by (intro control_frame_literal) simp_all
  qed (simp_all add: reply_OK that)
  have cmds:
    "bytes_of ''NAME='' @ cstr (bytes_of ''out.txt'') = ?name"
    "bytes_of ''SIZE='' @ printf_ld (word_of_nat (length (ReadAllBytes (bytes_of ''a''))))
       = ?size"
    "bytes_of ''HASH='' @ bytes_of ''0cc175b9c0f1b6a831c399e269772661'' = ?hash"
    by (simp_all add: cstr_def ReadAllBytes_def printf_ld_def digits.simps bytes_of_def)
  have ok: "length s < 120 \<and> 0x25 \<notin> set s \<and> 0 \<notin> set s"
    if "s \<in> {?name, ?size, ?hash, ?start, ?stop}" for s
    using that by (auto simp: bytes_of_def)
  let ?w4 = "\<lparr>sleep_time = 0, sent = [?F ?name, ?F ?size, ?F ?hash, ?F ?start],
              slept = []\<rparr>"
  let ?w5 = "\<lparr>sleep_time = 0, sent = [?F ?name, ?F ?size, ?F ?hash, ?F ?start, ?D],
              slept = [0]\<rparr>"
  have str: "stream ?net (bytes_of ''a'') 0 (replicate 4096 0) (replicate 16 0) ?w4
             = Some (Done, ?w5)"
  proof -
    have "stream ?net (bytes_of ''a'') 0 (replicate 4096 0) (replicate 16 0) ?w4
          = stream ?net (bytes_of ''a'') 4084 (ZeroMemory 4096)
              (reply (bytes_of ''OKSS'' @ [0, 0, 0, 1])) ?w5"
      by (rule stream_step [where r = True and t = 0])
         (simp_all add: reply_OKSS_1 zeros_not_OK length_bytes_of)
    also have "\<dots> = Some (Done, ?w5)"
      by (rule stream_end) (simp add: length_bytes_of)
    finally show ?thesis .
  qed
  have run: "tmain (\<lambda>b. bytes_of ''0cc175b9c0f1b6a831c399e269772661'') ?net ?stk
               (bytes_of ''a'') (bytes_of ''out.txt'')
             = Some (Done, ?w5\<lparr>sent := sent ?w5 @ [?F ?stop]\<rparr>)"
    unfolding tmain_def Let_def cmds
    by (simp add: step ok ReadAllBytes_def str world0_def)
  show ?thesis
    unfolding run by (simp add: reply_OKSS_1 delay_of_1)
qed

section \<open>The checksum and CRC-32C\<close>

lemma funpow8: "(f ^^ 8) x = f (f (f (f (f (f (f (f x)))))))"
  by (simp add: eval_nat_numeral)

lemma crc32c_spec_check: "crc32c_spec (bytes_of ''123456789'') = 0xE3069283"
  by (simp add: crc32c_spec_def crc_bit_def POLY_def funpow8 bytes_of_def)

text \<open>
  On bytes below \<open>0x80\<close> (where the signed and the unsigned reading agree) the
  checksum of the code is CRC-32C.
\<close>

lemma bit31_drop: "\<not> bit (drop_bit 1 (a :: 32 word)) 31"
  by (auto simp: bit_drop_bit_eq dest: bit_imp_le_length)

lemma take_bit1_word: "take_bit 1 (a::32 word) = of_bool (odd a)"
  by (simp add: take_bit_Suc_0 mod_2_eq_odd)

lemma even_case: "even (a::32 word) \<Longrightarrow> push_bit 1 (drop_bit 1 a) = a"
  using bits_ident [of 1 a] by (simp only: take_bit1_word) simp

lemma odd_case: "odd (a::32 word) \<Longrightarrow> push_bit 1 (drop_bit 1 a) OR 1 = a"
  using bits_ident [of 1 a] by (simp only: take_bit1_word or_one_eq) simp

lemma and_1_odd: "(a AND 1 \<noteq> 0) = odd (a::32 word)"
  by (simp add: and_one_eq even_iff_mod_2_eq_zero)

lemma crc_unbit_crc_bit: "crc_unbit (crc_bit a) = a"
proof (cases "odd a")
  case True
  then have "crc_bit a = drop_bit 1 a XOR POLY"
    by (simp add: crc_bit_def and_1_odd)
  moreover have "bit (drop_bit 1 a XOR POLY) 31"
    using bit31_drop [of a] by (simp add: bit_xor_iff POLY_def)
  moreover have "(drop_bit 1 a XOR POLY) XOR POLY = drop_bit 1 a"
    by (simp add: xor.assoc)
  ultimately show ?thesis
    using odd_case [OF True] by (simp only: crc_unbit_def if_True)
next
  case False
  then have ev: "even a"
    by simp
  from False have "crc_bit a = drop_bit 1 a"
    by (simp add: crc_bit_def and_1_odd)
  then show ?thesis
    using even_case [OF ev] bit31_drop [of a] by (simp only: crc_unbit_def if_False)
qed

lemma crc_bit_inj: "crc_bit a = crc_bit b \<Longrightarrow> a = b"
proof -
  assume "crc_bit a = crc_bit b"
  then have "crc_unbit (crc_bit a) = crc_unbit (crc_bit b)"
    by simp
  then show "a = b"
    by (simp only: crc_unbit_crc_bit)
qed

lemma crc_bits_inj: "(crc_bit ^^ n) a = (crc_bit ^^ n) b \<Longrightarrow> a = b"
  by (induction n) (auto dest: crc_bit_inj)

lemma crc_byte_inj: "crc_byte a x = crc_byte b x \<Longrightarrow> a = b"
proof -
  assume "crc_byte a x = crc_byte b x"
  then have "a XOR scast x = b XOR scast x"
    unfolding crc_byte_def by (rule crc_bits_inj)
  then have "(a XOR scast x) XOR scast x = (b XOR scast x) XOR scast x"
    by simp
  then show "a = b"
    by (simp add: xor.assoc)
qed

lemma foldl_crc_byte_inj: "foldl crc_byte a xs = foldl crc_byte b xs \<Longrightarrow> a = b"
  by (induction xs arbitrary: a b) (auto dest: crc_byte_inj)

lemma foldl_low_bytes:
  "\<forall>b\<in>set xs. (scast b :: 32 word) = ucast b \<Longrightarrow>
   foldl (\<lambda>crc b. (crc_bit ^^ 8) (crc XOR ucast b)) s xs = foldl crc_byte s xs"
  by (induction xs arbitrary: s) (simp_all add: crc_byte_def)

lemma crc32c_low_bytes:
  "\<forall>b\<in>set body. (scast b :: 32 word) = ucast b \<Longrightarrow>
   crc32c 0 body (length body) = crc32c_spec body"
  by (simp add: crc32c_def crc32c_spec_def foldl_low_bytes)

lemma crc32c_one_high_byte:
  assumes "\<forall>b\<in>set pre. (scast b :: 32 word) = ucast b"
    and "(scast h :: 32 word) \<noteq> ucast h"
    and "\<forall>b\<in>set post. (scast b :: 32 word) = ucast b"
  shows "crc32c 0 (pre @ h # post) (length (pre @ h # post)) \<noteq> crc32c_spec (pre @ h # post)"
proof
  let ?step = "\<lambda>crc b. (crc_bit ^^ 8) (crc XOR (ucast (b::byte) :: 32 word))"
  let ?s = "foldl crc_byte (NOT 0) pre"
  assume "crc32c 0 (pre @ h # post) (length (pre @ h # post)) = crc32c_spec (pre @ h # post)"
  then have "foldl crc_byte (NOT 0) (pre @ h # post) = foldl ?step (NOT 0) (pre @ h # post)"
    by (simp add: crc32c_def crc32c_spec_def)
  then have "foldl crc_byte (crc_byte ?s h) post = foldl ?step (?step (foldl ?step (NOT 0) pre) h) post"
    by simp
  also have "\<dots> = foldl crc_byte (?step ?s h) post"
    using assms(1,3) by (simp add: foldl_low_bytes)
  finally have "crc_byte ?s h = ?step ?s h"
    by (rule foldl_crc_byte_inj)
  then have "?s XOR scast h = ?s XOR ucast h"
    unfolding crc_byte_def by (rule crc_bits_inj)
  then have "?s XOR (?s XOR scast h) = ?s XOR (?s XOR ucast h)"
    by simp
  then have "(scast h :: 32 word) = ucast h"
    by (simp add: xor.assoc [symmetric])
  then show False
    using assms(2) by simp
qed

lemma byte_of_word:
  "m < 8 \<Longrightarrow> bit (ucast (drop_bit k (a::32 word)) :: byte) m = bit a (k + m)"
  by (simp add: bit_simps)

lemma intToBytes_inj:
  assumes "intToBytes a = intToBytes b"
  shows "a = b"
proof (rule bit_word_eqI)
  fix n
  assume "n < LENGTH(32)"
  then have n: "n < 32" by simp
  from assms have e: "(ucast (drop_bit 24 a) :: byte) = ucast (drop_bit 24 b)"
    "(ucast (drop_bit 16 a) :: byte) = ucast (drop_bit 16 b)"
    "(ucast (drop_bit 8 a) :: byte) = ucast (drop_bit 8 b)"
    "(ucast (drop_bit 0 a) :: byte) = ucast (drop_bit 0 b)"
    by (simp_all add: intToBytes_def)
  have pick: "bit a n = bit b n"
    if "k \<le> n" and "n < k + 8"
      and "(ucast (drop_bit k a) :: byte) = ucast (drop_bit k b)" for k
  proof -
    have m: "n - k < 8" and nk: "k + (n - k) = n"
      using that(1,2) by simp_all
    have "bit a (k + (n - k)) = bit (ucast (drop_bit k a) :: byte) (n - k)"
      using m by (rule byte_of_word [symmetric])
    also have "\<dots> = bit (ucast (drop_bit k b) :: byte) (n - k)"
      by (simp only: that(3))
    also have "\<dots> = bit b (k + (n - k))"
      using m by (rule byte_of_word)
    finally show ?thesis
      by (simp only: nk)
  qed
  consider "n < 8" | "8 \<le> n \<and> n < 16" | "16 \<le> n \<and> n < 24" | "24 \<le> n \<and> n < 32"
    using n by linarith
  then show "bit a n = bit b n"
  proof cases
    case 1
    then show ?thesis
      using pick [of 0] e(4) by simp
  next
    case 2
    then show ?thesis
      using pick [of 8] e(3) by simp
  next
    case 3
    then show ?thesis
      using pick [of 16] e(2) by simp
  next
    case 4
    then show ?thesis
      using pick [of 24] e(1) by simp
  qed
qed

lemma second_frame_body:
  "data_frame (ZeroMemory 4096) (replicate 4085 0x61) 4084
   = ((bytes_of ''DATA'' @ [0, 0, 0x0F]) @ 0xF4 # 0x61 # replicate 4083 0)
     @ intToBytes (crc32c 0 ((bytes_of ''DATA'' @ [0, 0, 0x0F]) @ 0xF4 # 0x61 # replicate 4083 0)
         4092)"
proof -
  have chunk: "take 4084 (drop 4084 (replicate 4085 (0x61::byte))) = [0x61]"
    by simp
  show ?thesis
    using data_frame_eq(1) [of "ZeroMemory 4096" 4084 "replicate 4085 0x61"]
    by (simp add: chunk intToBytes_offsets ZeroMemory_def)
qed

text \<open>
  C4. The claim: the last four bytes of every frame are the CRC-32C of the first 4092,
  big-endian. Every frame is 4096 bytes with the result of \<^verbatim>\<open>crc32c\<close> at its end
  (\<open>seal_eq\<close>, \<open>data_frame_eq\<close>), but \<^verbatim>\<open>crc32c\<close> reads the buffer through a
  \<^verbatim>\<open>const char *\<close> and sign-extends each byte from \<open>0x80\<close> up, so its result is
  CRC-32C only for bytes below \<open>0x80\<close>. The second data frame of any file longer than
  4084 bytes has the offset byte \<open>0xF4\<close>: its last four bytes are not the CRC-32C of
  its body.
\<close>

theorem data_frame_checksum_not_crc32c:
  "take 4092 (data_frame (ZeroMemory 4096) (replicate 4085 0x61) 4084)
     = bytes_of ''DATA'' @ [0, 0, 0x0F, 0xF4] @ [0x61] @ replicate 4083 0
   \<and> drop 4092 (data_frame (ZeroMemory 4096) (replicate 4085 0x61) 4084)
     \<noteq> intToBytes (crc32c_spec
           (take 4092 (data_frame (ZeroMemory 4096) (replicate 4085 0x61) 4084)))"
proof -
  let ?pre = "bytes_of ''DATA'' @ [0, 0, 0x0F]"
  let ?post = "0x61 # replicate 4083 (0::byte)"
  let ?body = "?pre @ 0xF4 # ?post"
  have len: "length ?body = 4092"
    by (simp add: length_bytes_of)
  have "crc32c 0 ?body (length ?body) \<noteq> crc32c_spec ?body"
    by (rule crc32c_one_high_byte) (simp_all add: bytes_of_def)
  then have ne: "intToBytes (crc32c 0 ?body 4092) \<noteq> intToBytes (crc32c_spec ?body)"
    unfolding len using intToBytes_inj by blast
  show ?thesis
    unfolding second_frame_body using ne len by simp
qed

text \<open>
  C5. The claim: the digest is taken over the same bytes that the data frames carry, for
  every file. The digest is taken once, before the first frame, but over the text-mode
  read, while the data frames carry the binary read. For the four-byte file
  \<open>a CR LF b\<close> the digest is \<open>md5\<close> of the three bytes \<open>a LF b\<close>: with \<open>md5\<close>
  tabulated on these two inputs, the \<^verbatim>\<open>HASH\<close> frame carries the digest of the three
  bytes and the data frame carries the four.
\<close>

theorem digest_bytes_differ_from_payload_bytes:
  "text_mode [0x61, 0x0D, 0x0A, 0x62] = [0x61, 0x0A, 0x62]
   \<and> ReadAllBytes [0x61, 0x0D, 0x0A, 0x62] = [0x61, 0x0D, 0x0A, 0x62]
   \<and> map_option (\<lambda>(st, w). (st, map (take 4092) (sent w)))
        (tmain (\<lambda>b. if b = [0x61, 0x0A, 0x62] then bytes_of ''8cdeb44417f3c26826595d5820cf5700''
                    else bytes_of ''65d5f03c46e62e3f2babbe712d2ce464'')
           (\<lambda>n. Datagram (reply (bytes_of ''OK'')))
           \<lparr>back_buff0 = \<lambda>n. replicate 16 0, buffer2_0 = replicate 4096 0,
            backbuffer0 = replicate 16 0\<rparr>
           [0x61, 0x0D, 0x0A, 0x62] (bytes_of ''out.txt''))
      = Some (Done,
          [bytes_of ''NAME=out.txt'' @ replicate 4080 0,
           bytes_of ''SIZE=4'' @ replicate 4086 0,
           bytes_of ''HASH=8cdeb44417f3c26826595d5820cf5700'' @ replicate 4055 0,
           bytes_of ''START'' @ replicate 4087 0,
           bytes_of ''DATA'' @ [0, 0, 0, 0] @ [0x61, 0x0D, 0x0A, 0x62] @ replicate 4080 0,
           bytes_of ''STOP'' @ replicate 4088 0])"
proof -
  let ?md5 = "\<lambda>b::byte list. if b = [0x61, 0x0A, 0x62]
                then bytes_of ''8cdeb44417f3c26826595d5820cf5700''
                else bytes_of ''65d5f03c46e62e3f2babbe712d2ce464''"
  let ?net = "\<lambda>n::nat. Datagram (reply (bytes_of ''OK''))"
  let ?stk = "\<lparr>back_buff0 = \<lambda>n::nat. replicate 16 (0::byte),
               buffer2_0 = replicate 4096 0, backbuffer0 = replicate 16 0\<rparr>"
  let ?file = "[0x61, 0x0D, 0x0A, 0x62] :: byte list"
  let ?name = "bytes_of ''NAME=out.txt''"
  let ?size = "bytes_of ''SIZE=4''"
  let ?hash = "bytes_of ''HASH=8cdeb44417f3c26826595d5820cf5700''"
  let ?start = "bytes_of ''START''"
  let ?stop = "bytes_of ''STOP''"
  let ?F = "\<lambda>s. seal (s @ replicate (4096 - length s) 0)"
  let ?D = "data_frame (replicate 4096 0) ?file 0"
  have step: "control_step ?net ?stk s err w k = k (w\<lparr>sent := sent w @ [?F s]\<rparr>)"
    if "length s < 120" and "0x25 \<notin> set s" and "0 \<notin> set s" for s err w k
  proof (rule control_step_acked [where bb = "reply (bytes_of ''OK'')"])
    show "length s < 120" by fact
    show "control_frame (cstr s) = Some (?F s)"
      using that by (intro control_frame_literal) simp_all
  qed (simp_all add: reply_OK)
  have cmds:
    "bytes_of ''NAME='' @ cstr (bytes_of ''out.txt'') = ?name"
    "bytes_of ''SIZE='' @ printf_ld (word_of_nat (length (ReadAllBytes ?file))) = ?size"
    "bytes_of ''HASH='' @ ?md5 (text_mode ?file) = ?hash"
    by (simp_all add: cstr_def ReadAllBytes_def printf_ld_def digits.simps bytes_of_def)
  have ok: "length s < 120 \<and> 0x25 \<notin> set s \<and> 0 \<notin> set s"
    if "s \<in> {?name, ?size, ?hash, ?start, ?stop}" for s
    using that by (auto simp: bytes_of_def)
  let ?w4 = "\<lparr>sleep_time = 0, sent = [?F ?name, ?F ?size, ?F ?hash, ?F ?start],
              slept = []\<rparr>"
  let ?w5 = "\<lparr>sleep_time = 0, sent = [?F ?name, ?F ?size, ?F ?hash, ?F ?start, ?D],
              slept = [0]\<rparr>"
  have str: "stream ?net ?file 0 (replicate 4096 0) (replicate 16 0) ?w4 = Some (Done, ?w5)"
  proof -
    have "stream ?net ?file 0 (replicate 4096 0) (replicate 16 0) ?w4
          = stream ?net ?file 4084 (ZeroMemory 4096) (reply (bytes_of ''OK'')) ?w5"
      by (rule stream_step [where r = True and t = 0])
         (simp_all add: reply_OK zeros_not_OK)
    also have "\<dots> = Some (Done, ?w5)"
      by (rule stream_end) simp
    finally show ?thesis .
  qed
  have run: "tmain ?md5 ?net ?stk ?file (bytes_of ''out.txt'')
             = Some (Done, ?w5\<lparr>sent := sent ?w5 @ [?F ?stop]\<rparr>)"
    unfolding tmain_def Let_def cmds
    by (simp add: step ok ReadAllBytes_def str world0_def)
  have body: "take 4092 (?F s) = s @ replicate (4092 - length s) 0"
    if "length s < 120" and "0x25 \<notin> set s" and "0 \<notin> set s" for s
    using that control_frame_plain(2) [of s] by simp
  have bodies:
    "take 4092 (?F ?name) = ?name @ replicate 4080 0"
    "take 4092 (?F ?size) = ?size @ replicate 4086 0"
    "take 4092 (?F ?hash) = ?hash @ replicate 4055 0"
    "take 4092 (?F ?start) = ?start @ replicate 4087 0"
    "take 4092 (?F ?stop) = ?stop @ replicate 4088 0"
    using body [of ?name] body [of ?size] body [of ?hash] body [of ?start] body [of ?stop] ok
    by (simp_all add: length_bytes_of)
  have dbody: "take 4092 ?D
               = bytes_of ''DATA'' @ [0, 0, 0, 0] @ ?file @ replicate 4080 0"
    using data_frame_eq(1) [of "replicate 4096 0" 0 ?file]
    by (simp add: intToBytes_offsets length_bytes_of length_intToBytes)
  show ?thesis
    unfolding run by (simp add: bodies dbody world0_def ReadAllBytes_def)
qed

section \<open>Control frames and the format string\<close>

lemma attempt_cases:
  assumes "\<forall>n d. net n = Datagram d \<longrightarrow> length d = 16 \<and> hint_defined d"
    and "length bb = 16"
    and "attempt (net k) bb = (received, bb')"
  shows "length bb' = 16" and "received \<Longrightarrow> hint_defined bb'"
proof -
  show "length bb' = 16"
  proof (cases "net k")
    case SendError
    then show ?thesis using assms(2,3) by (simp add: attempt_def)
  next
    case RecvError
    then show ?thesis using assms(2,3) by (simp add: attempt_def recvfrom_def)
  next
    case (Datagram d)
    then have "length d = 16" using assms(1) by blast
    then show ?thesis using Datagram assms(2,3) by (auto simp: attempt_def recvfrom_def)
  qed
  show "hint_defined bb'" if received
  proof (cases "net k")
    case SendError
    then show ?thesis using assms(3) that by (simp add: attempt_def)
  next
    case RecvError
    then show ?thesis using assms(3) that by (simp add: attempt_def recvfrom_def)
  next
    case (Datagram d)
    then have d: "length d = 16" "hint_defined d" using assms(1) by blast+
    then have "bb' = d[15 := 0]"
      using Datagram assms(2,3) by (auto simp: attempt_def recvfrom_def)
    then show ?thesis
      using d by (simp add: last_byte_cleared)
  qed
qed

lemma send_loop_defined:
  "\<forall>n d. net n = Datagram d \<longrightarrow> length d = 16 \<and> hint_defined d \<Longrightarrow>
   length bb = 16 \<Longrightarrow>
   \<exists>t w'. send_loop net f tries bb w = Some (t, w')"
proof (induction net f tries bb w rule: send_loop.induct)
  case (1 net buffer tries back_buff w)
  obtain received bb where att: "attempt (net (length (sent w))) back_buff = (received, bb)"
    by (cases "attempt (net (length (sent w))) back_buff")
  have len: "length bb = 16" and hint: "received \<Longrightarrow> hint_defined bb"
    using attempt_cases [OF "1.prems"(1,2) att] by blast+
  have "(if received \<and> strncmp_eq bb (bytes_of ''OKSS'') 4
         then delay_of (bps_of bb) else Some (sleep_time w)) \<noteq> None"
    using hint by (auto simp: hint_defined_def)
  then obtain t where t: "(if received \<and> strncmp_eq bb (bytes_of ''OKSS'') 4
         then delay_of (bps_of bb) else Some (sleep_time w)) = Some t"
    by blast
  show ?case
  proof (cases "\<not> strncmp_eq bb (bytes_of ''OK'') 2 \<and> tries + 1 \<noteq> 8")
    case True
    have "\<exists>t' w'. send_loop net buffer (tries + 1) bb
             (w\<lparr>sleep_time := t, sent := sent w @ [buffer]\<rparr>) = Some (t', w')"
      using "1.IH" [OF att [symmetric] t True "1.prems"(1) len] .
    then show ?thesis
      using True t by (subst send_loop.simps) (simp add: att)
  next
    case False
    then show ?thesis
      using t by (subst send_loop.simps) (auto simp: att)
  qed
qed

lemma send_loop_retry_once:
  "send_loop (\<lambda>n. if n = 0 then RecvError else Datagram (reply (bytes_of ''OK'')))
     f 0 (replicate 16 0) world0
   = Some (2, \<lparr>sleep_time = 0, sent = [f, f], slept = []\<rparr>)"
  by (simp add: send_loop.simps attempt_def recvfrom_def reply_OK zeros_not_OK world0_def
        reply_last length_bytes_of)

text \<open>
  C10. A command shorter than 4092 bytes that contains neither \<^verbatim>\<open>%\<close> nor NUL gives a
  frame whose first 4092 bytes are the command followed by zeros, and whenever the
  datagrams that arrive are 16 bytes long with rate hints that have a defined delay,
  \<^verbatim>\<open>sendString\<close> returns after sending that frame, and only that frame, at least
  once. A command that contains \<^verbatim>\<open>%\<close> never gives that frame: the command is the
  format of \<^verbatim>\<open>sprintf\<close>.
\<close>

theorem sendString_command_body:
  "(length s < 4092 \<and> 0x25 \<notin> set s \<and> 0 \<notin> set s \<and> length bb0 = 16
      \<and> (\<forall>n d. net n = Datagram d \<longrightarrow> length d = 16 \<and> hint_defined d) \<longrightarrow>
      (\<exists>f r w' n. control_frame s = Some f \<and> length f = 4096
           \<and> take 4092 f = s @ replicate (4092 - length s) 0
           \<and> sendString net bb0 s w = Some (r, w')
           \<and> sent w' = sent w @ replicate (Suc n) f))
   \<and> (length t < 4092 \<and> 0x25 \<in> set t \<and> 0 \<notin> set t \<longrightarrow>
        (\<forall>f. control_frame t = Some f \<longrightarrow> take 4092 f \<noteq> t @ replicate (4092 - length t) 0))"
proof (intro conjI impI)
  assume a: "length s < 4092 \<and> 0x25 \<notin> set s \<and> 0 \<notin> set s \<and> length bb0 = 16
      \<and> (\<forall>n d. net n = Datagram d \<longrightarrow> length d = 16 \<and> hint_defined d)"
  let ?f = "seal (s @ replicate (4096 - length s) 0)"
  have cf: "control_frame s = Some ?f"
    and body: "take 4092 ?f = s @ replicate (4092 - length s) 0"
    and len: "length ?f = 4096"
    using a control_frame_plain [of s] by simp_all
  obtain tr w' where run: "send_loop net ?f 0 bb0 w = Some (tr, w')"
    using a send_loop_defined [of net bb0 ?f 0 w] by blast
  then obtain n where n: "sent w' = sent w @ replicate (Suc n) ?f"
    using send_loop_sent by blast
  have "sendString net bb0 s w = Some (tr <s 8, w')"
    using run by (simp add: sendString_def cf)
  with cf body len n
  show "\<exists>f r w' n. control_frame s = Some f \<and> length f = 4096
           \<and> take 4092 f = s @ replicate (4092 - length s) 0
           \<and> sendString net bb0 s w = Some (r, w')
           \<and> sent w' = sent w @ replicate (Suc n) f"
    by blast
next
  assume "length t < 4092 \<and> 0x25 \<in> set t \<and> 0 \<notin> set t"
  then show "\<forall>f. control_frame t = Some f \<longrightarrow> take 4092 f \<noteq> t @ replicate (4092 - length t) 0"
    using control_frame_percent [of t] by blast
qed

theorem sendString_command_body_witness:
  "sendString (\<lambda>n. if n = 0 then RecvError else Datagram (reply (bytes_of ''OK'')))
     (replicate 16 0) (bytes_of ''START'') world0
     = Some (True,
         \<lparr>sleep_time = 0,
          sent = [seal (bytes_of ''START'' @ replicate 4091 0),
                  seal (bytes_of ''START'' @ replicate 4091 0)],
          slept = []\<rparr>)
   \<and> take 4092 (seal (bytes_of ''START'' @ replicate 4091 0))
        = bytes_of ''START'' @ replicate 4087 0
   \<and> control_frame (bytes_of ''NAME=a%%b'')
        = Some (seal (bytes_of ''NAME=a%b'' @ replicate 4088 0))
   \<and> take 4092 (seal (bytes_of ''NAME=a%b'' @ replicate 4088 0))
        \<noteq> bytes_of ''NAME=a%%b'' @ replicate 4083 0"
proof -
  let ?net = "\<lambda>n::nat. if n = 0 then RecvError else Datagram (reply (bytes_of ''OK''))"
  let ?s = "bytes_of ''START''"
  let ?t = "bytes_of ''NAME=a%%b''"
  have h1: "length ?s < 4092 \<and> 0x25 \<notin> set ?s \<and> 0 \<notin> set ?s
      \<and> length (replicate 16 (0::byte)) = 16
      \<and> (\<forall>n d. ?net n = Datagram d \<longrightarrow> length d = 16 \<and> hint_defined d)"
  proof -
    have "length ?s < 4092 \<and> 0x25 \<notin> set ?s \<and> 0 \<notin> set ?s"
      by (simp add: bytes_of_def)
    moreover have "\<forall>n d. ?net n = Datagram d \<longrightarrow> length d = 16 \<and> hint_defined d"
      by (auto simp: hint_defined_def reply_OK split: if_splits)
    ultimately show ?thesis
      by simp
  qed
  have h2: "length ?t < 4092 \<and> 0x25 \<in> set ?t \<and> 0 \<notin> set ?t"
    by (simp add: bytes_of_def)
  have fmt: "format (cstr ?t) = Some (bytes_of ''NAME=a%b'')"
    by (simp add: bytes_of_def cstr_def)
  have cf: "control_frame ?t = Some (seal (bytes_of ''NAME=a%b'' @ replicate 4088 0))"
    using control_frame_format(1) [OF fmt] by (simp add: bytes_of_def)
  have n1: "4092 - length ?s = 4087" and n2: "4092 - length ?t = 4083"
    by (simp_all add: bytes_of_def)
  note inst = sendString_command_body [where s = ?s and ?bb0.0 = "replicate 16 0" and net = ?net
      and w = world0 and t = ?t]
  have run: "sendString ?net (replicate 16 0) ?s world0
     = Some (True,
         \<lparr>sleep_time = 0,
          sent = [seal (?s @ replicate 4091 0), seal (?s @ replicate 4091 0)],
          slept = []\<rparr>)"
    by (simp add: sendString_def control_frame_START send_loop_retry_once word_sless_alt)
  from inst h1 obtain f r w' n where f: "control_frame ?s = Some f"
    "take 4092 f = ?s @ replicate (4092 - length ?s) 0"
    "sendString ?net (replicate 16 0) ?s world0 = Some (r, w')"
    "sent w' = sent world0 @ replicate (Suc n) f"
    by blast
  have "f = seal (?s @ replicate 4091 0)"
    using f(1) control_frame_START by simp
  then have A: "take 4092 (seal (?s @ replicate 4091 0)) = ?s @ replicate 4087 0"
    using f(2) unfolding n1 by simp
  have B: "take 4092 (seal (bytes_of ''NAME=a%b'' @ replicate 4088 0))
        \<noteq> ?t @ replicate 4083 0"
    using inst h2 cf unfolding n2 by blast
  show ?thesis
    using run A cf B by blast
qed

end
